theory Spec2Isabelle
  imports Main "HOL-Library.Sublist"
begin

section \<open>The nested-delimiter split\<close>

text \<open>
  A string of the feed is a list of characters. The feed is decoded from a single-byte
  code page, so one \<^typ>\<open>char\<close> stands for one character of the decoded text.
  \<open>slice xs i j\<close> is Python's \<open>xs[i:j]\<close> for \<open>0 \<le> i \<le> j\<close>: it is cut short at the
  end of the list and never fails.
\<close>

definition slice :: "'a list \<Rightarrow> nat \<Rightarrow> nat \<Rightarrow> 'a list" where
  "slice xs i j = take (j - i) (drop i xs)"

partial_function (option) split_loop ::
  "string \<Rightarrow> string \<Rightarrow> string \<Rightarrow> string \<Rightarrow> nat \<Rightarrow> int \<Rightarrow> string \<Rightarrow> string list \<Rightarrow> string list option"
where
  "split_loop string separator delimiter1 delimiter2 i level tmp result =
     (if i < length string then
        (if slice string i (i + length separator) = separator \<and> level = 0 then
           split_loop string separator delimiter1 delimiter2
             (i + length separator) level [] (result @ [tmp])
         else
           split_loop string separator delimiter1 delimiter2 (i + 1)
             (if slice string i (i + length delimiter1) = delimiter1 then level + 1
              else if slice string i (i + length delimiter2) = delimiter2 then level - 1
              else level)
             (tmp @ [string ! i]) result)
      else Some (result @ [tmp]))"

declare split_loop.simps [code]

definition split_outside_delimiters :: "string \<Rightarrow> string \<Rightarrow> string \<Rightarrow> string \<Rightarrow> string list option" where
  "split_outside_delimiters string separator delimiter1 delimiter2 =
     split_loop string separator delimiter1 delimiter2 0 0 [] []"

fun join :: "string \<Rightarrow> string list \<Rightarrow> string" where
  "join sep [] = []"
| "join sep [x] = x"
| "join sep (x # y # ys) = x @ sep @ join sep (y # ys)"

fun split_points :: "nat \<Rightarrow> nat \<Rightarrow> string list \<Rightarrow> nat list" where
  "split_points n start [] = []"
| "split_points n start [x] = []"
| "split_points n start (x # y # ys) =
     (start + length x) # split_points n (start + length x + n) (y # ys)"

definition nesting_level :: "char \<Rightarrow> char \<Rightarrow> string \<Rightarrow> nat \<Rightarrow> int" where
  "nesting_level a b s i = int (count_list (take i s) a) - int (count_list (take i s) b)"

definition unbordered :: "string \<Rightarrow> bool" where
  "unbordered sep = (\<forall>k \<in> {1..<length sep}. take k sep \<noteq> drop (length sep - k) sep)"

definition final_start :: "nat \<Rightarrow> string list \<Rightarrow> nat" where
  "final_start n r = (if split_points n 0 r = [] then 0 else last (split_points n 0 r) + n)"

definition occurs_at_level_zero :: "string \<Rightarrow> char \<Rightarrow> char \<Rightarrow> string \<Rightarrow> nat \<Rightarrow> bool" where
  "occurs_at_level_zero sep a b s i = (slice s i (i + length sep) = sep \<and> nesting_level a b s i = 0)"

definition level_zero_occurrences :: "string \<Rightarrow> char \<Rightarrow> char \<Rightarrow> string \<Rightarrow> nat list" where
  "level_zero_occurrences sep a b s = filter (occurs_at_level_zero sep a b s) [0..<length s]"

definition points_inv ::
  "string \<Rightarrow> char \<Rightarrow> char \<Rightarrow> string \<Rightarrow> nat \<Rightarrow> int \<Rightarrow> string \<Rightarrow> string list \<Rightarrow> string list \<Rightarrow> bool" where
  "points_inv sep a b s i level tmp result r =
     (i \<le> length s \<and> level = nesting_level a b s i \<and> join sep (result @ [tmp]) = take i s \<longrightarrow>
      split_points (length sep) 0 r =
        split_points (length sep) 0 (result @ [tmp]) @ filter (occurs_at_level_zero sep a b s) [i..<length s])"

text \<open>
  The nesting level at a position is the number of open delimiters minus the number of
  close delimiters before it. A string is balanced when no prefix has more closes than
  opens and the whole string has as many of each. The close delimiter at \<open>k\<close> matches the
  open delimiter at \<open>j\<close> when the level comes back at \<open>k\<close>, for the first time, to what it
  was before \<open>j\<close>.
\<close>

definition balanced :: "char \<Rightarrow> char \<Rightarrow> string \<Rightarrow> bool" where
  "balanced a b s =
     (list_all (\<lambda>m. 0 \<le> nesting_level a b s m) [0..<Suc (length s)]
      \<and> nesting_level a b s (length s) = 0)"

definition matching_close :: "char \<Rightarrow> char \<Rightarrow> string \<Rightarrow> nat \<Rightarrow> nat \<Rightarrow> bool" where
  "matching_close a b s j k =
     (j < k \<and> k < length s \<and> s ! j = a \<and> s ! k = b
      \<and> nesting_level a b s (Suc k) = nesting_level a b s j
      \<and> list_all (\<lambda>m. nesting_level a b s j < nesting_level a b s m) [Suc j..<Suc k])"

definition points_sub_inv ::
  "string \<Rightarrow> char \<Rightarrow> char \<Rightarrow> string \<Rightarrow> nat \<Rightarrow> int \<Rightarrow> string \<Rightarrow> string list \<Rightarrow> string list \<Rightarrow> bool" where
  "points_sub_inv sep a b s i level tmp result r =
     (i \<le> length s \<and> level = nesting_level a b s i \<and> join sep (result @ [tmp]) = take i s \<longrightarrow>
      (\<forall>p \<in> set (split_points (length sep) 0 r).
         p \<in> set (split_points (length sep) 0 (result @ [tmp])) \<or> occurs_at_level_zero sep a b s p))"

section \<open>Channel identifiers\<close>

text \<open>
  \<open>telerama_to_xmltv_id\<close> appends the domain suffix. \<open>xmltv_to_telerama_id\<close> calls
  Python's \<open>str.replace(old, '')\<close>, modelled by \<open>replace_str\<close>: every occurrence of
  \<open>old\<close>, found from left to right without overlap, is replaced (for an empty \<open>old\<close>
  Python puts \<open>new\<close> before every character and at the end).
\<close>

definition telerama_to_xmltv_id :: "string \<Rightarrow> string" where
  "telerama_to_xmltv_id channel_id = channel_id @ ''.tv.telerama.fr''"

function replace_str :: "string \<Rightarrow> string \<Rightarrow> string \<Rightarrow> string" where
  "replace_str old new s =
     (if old = [] then new @ concat (map (\<lambda>c. c # new) s)
      else if s = [] then []
      else if prefix old s then new @ replace_str old new (drop (length old) s)
      else hd s # replace_str old new (tl s))"
  by pat_completeness auto
termination
  by (relation "measure (\<lambda>(old, new, s). length s)") auto

declare replace_str.simps [simp del]

definition xmltv_to_telerama_id :: "string \<Rightarrow> string" where
  "xmltv_to_telerama_id channel_id = replace_str ''.tv.telerama.fr'' [] channel_id"

section \<open>Characters, whitespace and the string methods used\<close>

text \<open>
  The feed is decoded from windows-1252, one character per byte, so a \<^typ>\<open>char\<close> is the
  byte of a character in that code page. \<open>isspace\<close> holds for the bytes whose character
  Python counts as whitespace (in \<open>str.strip\<close> and for \<open>\s\<close> in a pattern on \<open>str\<close>):
  tab, line feed, vertical tab, form feed, carriage return, the four separators
  \<open>0x1C\<close> to \<open>0x1F\<close>, space and the no-break space \<open>0xA0\<close>.
\<close>

definition newline :: char where
  "newline = CHR 0x0A"

definition isspace :: "char \<Rightarrow> bool" where
  "isspace c = (of_char c \<in> {9, 10, 11, 12, 13, 28, 29, 30, 31, 32, 160 :: int})"

definition isdigit :: "char \<Rightarrow> bool" where
  "isdigit c = (48 \<le> (of_char c :: int) \<and> (of_char c :: int) \<le> 57)"

definition strip :: "string \<Rightarrow> string" where
  "strip s = rev (dropWhile isspace (rev (dropWhile isspace s)))"

text \<open>
  \<open>split_str sep s\<close> is \<open>s.split(sep)\<close> for a non-empty \<open>sep\<close> (Python raises ValueError
  for an empty one; the program only passes \<open>$$$\<close>). \<open>acc\<close> is the field read so far.
\<close>

function split_acc :: "string \<Rightarrow> string \<Rightarrow> string \<Rightarrow> string list" where
  "split_acc sep acc s =
     (if s = [] then [acc]
      else if sep \<noteq> [] \<and> prefix sep s then acc # split_acc sep [] (drop (length sep) s)
      else split_acc sep (acc @ [hd s]) (tl s))"
  by pat_completeness auto
termination
  by (relation "measure (\<lambda>(sep, acc, s). length s)") auto

declare split_acc.simps [simp del]

definition split_str :: "string \<Rightarrow> string \<Rightarrow> string list" where
  "split_str sep s = split_acc sep [] s"

text \<open>
  \<open>int(text)\<close> on a string of ASCII digits, and \<open>str(n)\<close> of an integer. \<open>int\<close> refuses a
  text of more than 4300 digits with ValueError (the limit on the conversion between
  \<open>str\<close> and \<open>int\<close> of Python 3.11, also in the later releases of 3.7 to 3.10):
  \<open>python_int\<close> is \<open>None\<close> then.
\<close>

definition int_of_digits :: "string \<Rightarrow> int" where
  "int_of_digits ds = foldl (\<lambda>a c. 10 * a + (of_char c - 48)) 0 ds"

definition python_int :: "string \<Rightarrow> int option" where
  "python_int ds = (if 4300 < int (length ds) then None else Some (int_of_digits ds))"

function digits :: "int \<Rightarrow> string" where
  "digits n =
     (if n < 10 then [''0123456789'' ! nat n]
      else digits (n div 10) @ [''0123456789'' ! nat (n mod 10)])"
  by pat_completeness auto
termination
  by (relation "measure nat") auto

declare digits.simps [simp del]

definition str_of_int :: "int \<Rightarrow> string" where
  "str_of_int i = (if i < 0 then CHR ''-'' # digits (- i) else digits i)"

section \<open>Regular expressions\<close>

text \<open>
  The patterns of the program use literals, \<open>.\<close>, \<open>\s\<close>, \<open>[0-9]\<close>, \<open>^\<close> and \<open>$\<close> (always
  with \<open>re.MULTILINE\<close>), sequence, alternative, the greedy \<open>*\<close>, \<open>+\<close> and \<open>?\<close>, and
  capturing groups. \<open>matches r s (p, g)\<close> lists every way \<open>r\<close> can match \<open>s\<close> from position
  \<open>p\<close> with the groups \<open>g\<close> captured so far, in the order in which a backtracking matcher
  tries them: the head is the match Python reports. Captures are kept newest first.
\<close>

datatype regex =
    Lit char
  | Dot
  | Space
  | Digit
  | Bol
  | Eol
  | Eps
  | Seq regex regex
  | Alt regex regex
  | Star regex
  | Grp nat regex

type_synonym caps = "(nat \<times> nat \<times> nat) list"

definition one_char :: "(char \<Rightarrow> bool) \<Rightarrow> string \<Rightarrow> nat \<times> caps \<Rightarrow> (nat \<times> caps) list" where
  "one_char P s st = (if fst st < length s \<and> P (s ! fst st) then [(Suc (fst st), snd st)] else [])"

function matches :: "regex \<Rightarrow> string \<Rightarrow> nat \<times> caps \<Rightarrow> (nat \<times> caps) list" where
  "matches (Lit c) s st = one_char (\<lambda>x. x = c) s st"
| "matches Dot s st = one_char (\<lambda>x. x \<noteq> newline) s st"
| "matches Space s st = one_char isspace s st"
| "matches Digit s st = one_char isdigit s st"
| "matches Bol s st =
     (if fst st = 0 \<or> (fst st \<le> length s \<and> s ! (fst st - 1) = newline) then [st] else [])"
| "matches Eol s st =
     (if fst st = length s \<or> (fst st < length s \<and> s ! fst st = newline) then [st] else [])"
| "matches Eps s st = [st]"
| "matches (Seq a b) s st = concat (map (matches b s) (matches a s st))"
| "matches (Alt a b) s st = matches a s st @ matches b s st"
| "matches (Star a) s st =
     concat (map (\<lambda>st'. if fst st < fst st' \<and> fst st' \<le> length s
                         then matches (Star a) s st' else [])
                 (matches a s st)) @ [st]"
| "matches (Grp n a) s st =
     map (\<lambda>st'. (fst st', (n, fst st, fst st') # snd st')) (matches a s st)"
  by pat_completeness auto
termination
  by (relation "measures [\<lambda>(r, s, st). size r, \<lambda>(r, s, st). length s - fst st]") auto

fun lits :: "string \<Rightarrow> regex" where
  "lits [] = Eps"
| "lits (c # cs) = Seq (Lit c) (lits cs)"

fun seqs :: "regex list \<Rightarrow> regex" where
  "seqs [] = Eps"
| "seqs (r # rs) = Seq r (seqs rs)"

definition Plus :: "regex \<Rightarrow> regex" where
  "Plus a = Seq a (Star a)"

definition Opt :: "regex \<Rightarrow> regex" where
  "Opt a = Alt a Eps"

text \<open>
  \<open>re_search r s\<close> is \<open>re.search\<close>: the first match from the leftmost start position that
  has one. \<open>group s m n\<close> is \<open>m.group(n)\<close>, \<open>None\<close> for a group that took no part.
\<close>

record rmatch =
  m_start :: nat
  m_end :: nat
  m_caps :: caps

fun search_from :: "regex \<Rightarrow> string \<Rightarrow> nat list \<Rightarrow> rmatch option" where
  "search_from r s [] = None"
| "search_from r s (p # ps) =
     (case matches r s (p, []) of
        [] \<Rightarrow> search_from r s ps
      | st # _ \<Rightarrow> Some \<lparr>m_start = p, m_end = fst st, m_caps = snd st\<rparr>)"

definition re_search :: "regex \<Rightarrow> string \<Rightarrow> rmatch option" where
  "re_search r s = search_from r s [0..<Suc (length s)]"

definition group :: "string \<Rightarrow> rmatch \<Rightarrow> nat \<Rightarrow> string option" where
  "group s m n =
     (if n = 0 then Some (slice s (m_start m) (m_end m))
      else map_option (\<lambda>(a, b). slice s a b) (map_of (m_caps m) n))"

text \<open>
  The patterns, in the order of the source. \<open>label_re l\<close> is \<open>^l :\s*(.+)\s*$\<close>; a
  character with an accent is written by its byte.
\<close>

definition e_acute :: char where
  "e_acute = CHR 0xE9"

definition e_grave :: char where
  "e_grave = CHR 0xE8"

definition label_re :: "string \<Rightarrow> regex" where
  "label_re label =
     seqs [Bol, lits label, lits '' :'', Star Space, Grp 1 (Plus Dot), Star Space, Eol]"

definition episode_re :: regex where
  "episode_re =
     seqs [Bol, lits ''Episode :'', Star Space, Grp 1 (Plus Digit),
           Opt (Seq (Lit CHR ''/'') (Grp 2 (Plus Digit))), Star Space, Eol]"

definition season_re :: regex where
  "season_re = seqs [Bol, lits ''Saison :'', Star Space, Grp 1 (Plus Digit), Star Space, Eol]"

definition aspect_re :: regex where
  "aspect_re = seqs [Bol, lits ''En '', Grp 1 (Alt (lits ''16:9'') (lits ''4:3''))]"

definition hd_re :: regex where
  "hd_re = seqs [Bol, lits ''HD'', Eol]"

definition premiere_re :: regex where
  "premiere_re =
     seqs [Bol, Grp 1 (Alt (lits (''In'' @ [e_acute] @ ''dit''))
                          (lits (''Premi'' @ [e_grave] @ ''re diffusion'')))]"

definition actor_re :: regex where
  "actor_re = seqs [Grp 1 (Star Dot), lits '' ('', Grp 2 (Star Dot), Lit CHR '')'']"

text \<open>\<open>starts_line w s\<close>: the pattern \<open>^w\<close> is found in \<open>s\<close>.\<close>

definition starts_line :: "string \<Rightarrow> string \<Rightarrow> bool" where
  "starts_line w s = (re_search (seqs [Bol, lits w]) s \<noteq> None)"

section \<open>XML elements and errors\<close>

text \<open>
  An element of \<open>xml.etree.ElementTree\<close>: its tag, its attributes in insertion order, its
  text (\<open>None\<close> when never set) and its children. An exception that ends the run is a
  value of \<open>error\<close>; \<open>NoReturn\<close> stands for a split that does not return.
\<close>

datatype xml = Element (tag: string) (attrib: "(string \<times> string) list")
  (text_of: "string option") (children: "xml list")

datatype error =
  IndexError | ValueError | OverflowError | AttributeError | SyntaxError | KeyError | NoReturn

section \<open>Category translation\<close>

definition e_circ :: char where
  "e_circ = CHR 0xEA"

definition a_circ :: char where
  "a_circ = CHR 0xE2"

definition E_acute :: char where
  "E_acute = CHR 0xC9"

definition categories :: "(string \<times> string) list" where
  "categories =
    [(''Ballet'', ''Music / Ballet / Dance''),
     (''Clips'', ''Music / Ballet / Dance''),
     (''Concert'', ''Music / Ballet / Dance''),
     (''D'' @ [e_acute] @ ''bat'', ''Talk show''),
     (''Dessin anim'' @ [e_acute], ''Cartoons / Puppets''),
     (''Divers'', []),
     (''Divertissement'', ''Variety show''),
     (''Documentaire'', ''Documentary''),
     ([E_acute] @ ''mission'', []),
     (''Emission du bien-'' @ [e_circ] @ ''tre'', ''Fitness and health''),
     (''Emission du bien-'' @ [e_circ] @ ''tr'', ''Fitness and health''),
     (''Feuilleton'', ''Soap / Melodrama / Folkloric''),
     (''Feuilleton sentimental'', ''Romance''),
     (''Film'', ''Movie / Drama''),
     (''Fin'', []),
     (''Fitness'', ''Fitness and health''),
     (''Interview'', ''Discussion / Interview / Debate''),
     (''Jeu'', ''Game show / Quiz / Contest''),
     (''Jeunesse'', ''Children'' @ [CHR 0x27] @ ''s / Youth programmes''),
     (''Journal'', ''News / Current affairs''),
     (''Loterie'', ''Game show / Quiz / Contest''),
     (''Magazine'', ''Magazines / Reports / Documentary''),
     (''M'' @ [e_acute] @ ''t'' @ [e_acute] @ ''o'', ''News / Weather report''),
     (''Op'' @ [e_acute] @ ''ra'', ''Musical / Opera''),
     (''Politique'', ''Social / Political issues / Economics''),
     (''Religion'', ''Religion''),
     (''S'' @ [e_acute] @ ''rie'', ''Movie / Drama''),
     (''Spectacle'', ''Performing arts''),
     (''Sport'', ''Sports''),
     (''Talk show'', ''Talk show''),
     (''T'' @ [e_acute] @ ''l'' @ [e_acute] @ ''film'', ''Movie / Drama''),
     (''T'' @ [e_acute] @ ''l'' @ [e_acute] @ ''r'' @ [e_acute] @ ''alit'' @ [e_acute], ''Variety show''),
     (''Th'' @ [e_acute] @ [a_circ] @ ''tre'', ''Performing arts''),
     (''Tierc'' @ [e_acute], ''Sports''),
     (''Vari'' @ [e_acute] @ ''t'' @ [e_acute] @ ''s'', ''Variety show''),
     (''Voyance'', ''Leisure hobbies'')]"

text \<open>
  \<open>translate_categories\<close> returns the translation and the lines it prints on the error
  stream: one line for a category that is not in the table.
\<close>

definition translate_categories :: "string \<Rightarrow> string \<times> string list" where
  "translate_categories category =
     (case map_of categories category of
        Some c \<Rightarrow> (c, [])
      | None \<Rightarrow> ([], [''Unmanaged category: '' @ category]))"

section \<open>Dates and times\<close>

text \<open>
  A \<open>datetime\<close> with its time zone attached: the day as \<open>date.toordinal\<close> counts it, the
  second of the day on the wall clock, and the offset from UTC in seconds. The library
  functions are parameters: \<open>strptime text format\<close> is \<open>datetime.strptime\<close> (\<open>None\<close> for
  ValueError) and gives the day and the second of the day; \<open>paris_offset\<close> is the offset
  that \<open>pytz\<close>'s \<open>localize\<close> chooses for a wall-clock time in Europe/Paris; \<open>strftime\<close>
  is the formatting of \<open>"{:format}".format(d)\<close>; \<open>etree_find path children\<close> is
  \<open>Element.find(path)\<close> of ElementTree on an element with these children, which
  parses the text of the path: it returns the first element found or \<open>None\<close>, or raises.
\<close>

record datetime =
  ordinal :: int
  second_of_day :: int
  utcoffset :: int

record library =
  strptime :: "string \<Rightarrow> string \<Rightarrow> (int \<times> int) option"
  paris_offset :: "int \<times> int \<Rightarrow> int"
  strftime :: "string \<Rightarrow> datetime \<Rightarrow> string"
  etree_find :: "string \<Rightarrow> xml list \<Rightarrow> error + xml option"

definition localize :: "library \<Rightarrow> int \<times> int \<Rightarrow> datetime" where
  "localize lib n = \<lparr>ordinal = fst n, second_of_day = snd n, utcoffset = paris_offset lib n\<rparr>"

text \<open>Two datetimes with a zone are compared as instants: seconds on the UTC time line.\<close>

definition instant :: "datetime \<Rightarrow> int" where
  "instant d = ordinal d * 86400 + second_of_day d - utcoffset d"

text \<open>
  \<open>d + timedelta(days=1)\<close>: the next day on the wall clock with the same zone object, so
  the same offset; OverflowError after 31 December 9999, whose ordinal is 3652059.
\<close>

definition add_one_day :: "datetime \<Rightarrow> datetime option" where
  "add_one_day d = (if ordinal d + 1 > 3652059 then None else Some (d\<lparr>ordinal := ordinal d + 1\<rparr>))"

definition timing :: "library \<Rightarrow> string list \<Rightarrow> error + datetime \<times> datetime" where
  "timing lib data =
     (case strptime lib (data ! 12 @ '' '' @ data ! 3) ''%d/%m/%Y %H:%M:%S'' of
        None \<Rightarrow> Inl ValueError
      | Some n1 \<Rightarrow>
          (case strptime lib (data ! 12 @ '' '' @ data ! 4) ''%d/%m/%Y %H:%M:%S'' of
             None \<Rightarrow> Inl ValueError
           | Some n2 \<Rightarrow>
               (let start = localize lib n1; stop = localize lib n2 in
                if instant start > instant stop then
                  (case add_one_day stop of
                     None \<Rightarrow> Inl OverflowError
                   | Some stop' \<Rightarrow> Inr (start, stop'))
                else Inr (start, stop))))"

section \<open>From one record to a programme element\<close>

text \<open>
  \<open>data\<close> is the list of the stripped fields of one record; \<open>data ! 7\<close> is the details
  block. Each definition below is one block of \<open>write_xmltv_data\<close>, giving the children it
  appends to the programme element, in order.
\<close>

definition simple :: "string \<Rightarrow> string \<Rightarrow> xml" where
  "simple t v = Element t [] (Some v) []"

definition group1 :: "string \<Rightarrow> rmatch \<Rightarrow> string" where
  "group1 s m = (case group s m 1 of Some v \<Rightarrow> v | None \<Rightarrow> [])"

definition label_value :: "string \<Rightarrow> string \<Rightarrow> string option" where
  "label_value label details = map_option (group1 details) (re_search (label_re label) details)"

definition showview_attrib :: "string list \<Rightarrow> (string \<times> string) list" where
  "showview_attrib data =
     (case label_value ''Showview'' (data ! 7) of Some v \<Rightarrow> [(''showview'', v)] | None \<Rightarrow> [])"

definition subtitle_xml :: "string list \<Rightarrow> xml list" where
  "subtitle_xml data =
     (case label_value ''Sous-titre'' (data ! 7) of Some v \<Rightarrow> [simple ''sub-title'' v] | None \<Rightarrow> [])"

definition desc_xml :: "string list \<Rightarrow> xml list" where
  "desc_xml data = (if data ! 6 \<noteq> [] then [simple ''desc'' (data ! 6)] else [])"

definition actor_xml :: "string \<Rightarrow> xml" where
  "actor_xml actor =
     (case re_search actor_re actor of
        Some m \<Rightarrow>
          Element ''actor''
            (case group actor m 2 of Some r \<Rightarrow> [(''role'', r)] | None \<Rightarrow> [])
            (group actor m 1) []
      | None \<Rightarrow> Element ''actor'' [] (Some actor) [])"

definition credit_names :: "string option \<Rightarrow> string list option" where
  "credit_names v =
     (case v of None \<Rightarrow> Some [] | Some names \<Rightarrow> split_outside_delimiters names '', '' ''('' '')'')"

definition credits_xml :: "string list \<Rightarrow> xml list option" where
  "credits_xml data =
     (let m_directors = label_value (''R'' @ [e_acute] @ ''alisateur'') (data ! 7);
          m_actors = label_value ''Acteurs'' (data ! 7);
          m_composers = label_value ''Musique'' (data ! 7);
          m_presenters = label_value (''Pr'' @ [e_acute] @ ''sentateur'') (data ! 7);
          m_guests = label_value (''Invit'' @ [e_acute] @ ''s'') (data ! 7)
      in if m_directors \<noteq> None \<or> m_actors \<noteq> None \<or> m_composers \<noteq> None
            \<or> m_presenters \<noteq> None \<or> m_guests \<noteq> None then
           (case credit_names m_directors of None \<Rightarrow> None | Some directors \<Rightarrow>
           (case credit_names m_actors of None \<Rightarrow> None | Some actors \<Rightarrow>
           (case credit_names m_composers of None \<Rightarrow> None | Some composers \<Rightarrow>
           (case credit_names m_presenters of None \<Rightarrow> None | Some presenters \<Rightarrow>
           (case credit_names m_guests of None \<Rightarrow> None | Some guests \<Rightarrow>
              Some [Element ''credits'' [] None
                      (map (simple ''director'') directors @ map actor_xml actors
                       @ map (simple ''composer'') composers
                       @ map (simple ''presenter'') presenters
                       @ map (simple ''guest'') guests)])))))
         else Some [])"

definition date_xml :: "string list \<Rightarrow> xml list" where
  "date_xml data =
     (case label_value (''Ann'' @ [e_acute] @ ''e'') (data ! 7) of
        Some v \<Rightarrow> [simple ''date'' v] | None \<Rightarrow> [])"

definition category_xml :: "string list \<Rightarrow> xml list" where
  "category_xml data =
     (let category = fst (translate_categories (data ! 5)) in
      (if category \<noteq> [] then [Element ''category'' [] (Some category) []] else [])
      @ (if data ! 5 \<noteq> [] then [Element ''category'' [(''lang'', ''fr'')] (Some (data ! 5)) []]
         else [])
      @ (case label_value ''Genre'' (data ! 7) of
           Some g \<Rightarrow>
             if g \<noteq> data ! 5 then [Element ''category'' [(''lang'', ''fr'')] (Some g) []] else []
         | None \<Rightarrow> []))"

definition icon_xml :: "library \<Rightarrow> datetime \<Rightarrow> string list \<Rightarrow> xml list" where
  "icon_xml lib start data =
     [Element ''icon''
        [(''src'', ''http://guidetv-iphone.telerama.fr/verytv/procedures/images/''
                   @ strftime lib ''%Y-%m-%d'' start @ ''_'' @ data ! 0 @ ''_''
                   @ strftime lib ''%H:%M'' start @ ''.jpg'')]
        None []]"

text \<open>
  The episode block: ValueError when \<open>int\<close> refuses the season or the episode. The numbers
  it prints have at most as many digits as the texts read, so \<open>format\<close> never refuses them.
\<close>

definition season_number :: "string \<Rightarrow> int option" where
  "season_number details =
     (case re_search season_re details of
        Some n \<Rightarrow> map_option (\<lambda>v. v - 1) (python_int (group1 details n))
      | None \<Rightarrow> Some 0)"

definition episode_data :: "string \<Rightarrow> rmatch \<Rightarrow> string option" where
  "episode_data details m =
     (case season_number details of
        None \<Rightarrow> None
      | Some season \<Rightarrow>
          (case python_int (group1 details m) of
             None \<Rightarrow> None
           | Some v \<Rightarrow>
               Some (str_of_int season @ ''.'' @ str_of_int (v - 1)
                     @ (case group details m 2 of Some episodes \<Rightarrow> ''/'' @ episodes | None \<Rightarrow> [])
                     @ ''.0/1'')))"

definition episodenum_xml :: "string list \<Rightarrow> error + xml list" where
  "episodenum_xml data =
     (case re_search episode_re (data ! 7) of
        Some m \<Rightarrow>
          (case episode_data (data ! 7) m of
             None \<Rightarrow> Inl ValueError
           | Some text \<Rightarrow> Inr [Element ''episode-num'' [(''system'', ''xmltv_ns'')] (Some text) []])
      | None \<Rightarrow> Inr [])"

text \<open>
  The video block reads group 1 of the aspect pattern without testing the match:
  AttributeError when the pattern is not found. The element it builds is never appended
  to the programme element.
\<close>

definition video_xml :: "string list \<Rightarrow> error + xml" where
  "video_xml data =
     (case re_search aspect_re (data ! 7) of
        None \<Rightarrow> Inl AttributeError
      | Some m \<Rightarrow>
          Inr (Element ''video'' [] None
                 ([Element ''aspect'' [] (group (data ! 7) m 1) []]
                  @ (if re_search hd_re (data ! 7) \<noteq> None then [simple ''quality'' ''HDTV''] else []))))"

definition audio_xml :: "string list \<Rightarrow> xml list" where
  "audio_xml data =
     (let stereo =
        (if starts_line ''En Dolby 5.1'' (data ! 7) then ''surround''
         else if starts_line ''En Dolby'' (data ! 7) then ''dolby''
         else if starts_line (''St'' @ [e_acute] @ ''r'' @ [e_acute] @ ''o'') (data ! 7) then ''stereo''
         else [])
      in if stereo \<noteq> [] then [Element ''audio'' [] None [simple ''stereo'' stereo]] else [])"

definition previously_shown_xml :: "string list \<Rightarrow> xml list" where
  "previously_shown_xml data =
     (if starts_line ''Rediffusion'' (data ! 7) then [Element ''previously-shown'' [] None []] else [])"

definition premiere_xml :: "string list \<Rightarrow> xml list" where
  "premiere_xml data =
     (case re_search premiere_re (data ! 7) of
        Some m \<Rightarrow> [Element ''premiere'' [(''lang'', ''fr'')] (group (data ! 7) m 0) []]
      | None \<Rightarrow> [])"

definition subtitles_xml :: "string list \<Rightarrow> xml list" where
  "subtitles_xml data =
     (let subtitles =
        (if starts_line ''VOST'' (data ! 7) then ''onscreen''
         else if starts_line (''Sous-titr'' @ [e_acute]) (data ! 7) then ''teletext''
         else [])
      in if subtitles \<noteq> [] then [Element ''subtitles'' [(''type'', subtitles)] None []] else [])"

definition rating_xml :: "string list \<Rightarrow> xml list" where
  "rating_xml data =
     (if data ! 8 \<noteq> ''0'' then [Element ''rating'' [] None [simple ''value'' (data ! 8)]] else [])"

definition starrating_xml :: "string list \<Rightarrow> xml list" where
  "starrating_xml data =
     (if data ! 10 = ''1'' \<or> data ! 10 = ''2'' \<or> data ! 10 = ''3''
      then [Element ''star-rating'' [] None [simple ''value'' (data ! 10 @ ''/3'')]] else [])"

definition review_xml :: "string list \<Rightarrow> xml list" where
  "review_xml data =
     (if data ! 11 \<noteq> [] then
        [Element ''review'' [(''type'', ''text''), (''lang'', ''fr'')] (Some (data ! 11)) []]
      else [])"

text \<open>
  The programme element of a record with at least 13 fields, with the lines printed on
  the error stream. The exceptions come in the order of the source: the times first,
  then the episode block, then the video block.
\<close>

definition program_xml :: "library \<Rightarrow> string list \<Rightarrow> error + xml \<times> string list" where
  "program_xml lib data =
     (case timing lib data of
        Inl e \<Rightarrow> Inl e
      | Inr (start, stop) \<Rightarrow>
          (case credits_xml data of
             None \<Rightarrow> Inl NoReturn
           | Some credits \<Rightarrow>
               (case episodenum_xml data of
                  Inl e \<Rightarrow> Inl e
                | Inr episodenum \<Rightarrow>
                    (case video_xml data of
                       Inl e \<Rightarrow> Inl e
                     | Inr video \<Rightarrow>
                         Inr (Element ''programme''
                                ([(''start'', strftime lib ''%Y%m%d%H%M%S %z'' start),
                                  (''stop'', strftime lib ''%Y%m%d%H%M%S %z'' stop),
                                  (''channel'', telerama_to_xmltv_id (data ! 0))]
                                 @ showview_attrib data)
                                None
                                ([simple ''title'' (data ! 2)] @ subtitle_xml data @ desc_xml data
                                 @ credits @ date_xml data @ category_xml data
                                 @ icon_xml lib start data @ episodenum
                                 @ audio_xml data @ previously_shown_xml data @ premiere_xml data
                                 @ subtitles_xml data @ rating_xml data @ starrating_xml data
                                 @ review_xml data),
                              snd (translate_categories (data ! 5)))))))"

section \<open>Building the document\<close>

text \<open>
  The state of the loop is the list of the children of the root element and the lines
  printed so far. The program looks a channel up with
  \<open>root.find('channel[@id="{}"]'.format(channel_id))\<close>: the identifier is pasted into the
  text of the path, \<open>channel_path\<close>, without escaping. \<open>root.insert(0, e)\<close> puts \<open>e\<close> in
  front, \<open>root.append(e)\<close> at the end. A record with fewer than 13 fields raises
  IndexError (at \<open>data[1]\<close> or at \<open>data[12]\<close>) before any other exception but those of
  \<open>find\<close>.
\<close>

definition channel_path :: "string \<Rightarrow> string" where
  "channel_path channel_id = ''channel[@id='' @ [CHR 0x22] @ channel_id @ [CHR 0x22] @ '']''"

text \<open>
  When the identifier has no double quote in it, the path is the step \<open>channel\<close> with the
  predicate \<open>[@id="..."]\<close>, and ElementTree returns the first child with that tag and
  that value of the attribute, \<open>find_channel\<close>. \<open>finds_channels lib\<close> says that the library
  does so. With a double quote in the identifier the text is another path, or none:
  nothing is said about it here.
\<close>

definition find_channel :: "xml list \<Rightarrow> string \<Rightarrow> xml option" where
  "find_channel root channel_id =
     find (\<lambda>e. tag e = ''channel'' \<and> map_of (attrib e) ''id'' = Some channel_id) root"

definition finds_channels :: "library \<Rightarrow> bool" where
  "finds_channels lib =
     (\<forall>channel_id root. CHR 0x22 \<notin> set channel_id \<longrightarrow>
        etree_find lib (channel_path channel_id) root = Inr (find_channel root channel_id))"

definition channel_xml :: "string list \<Rightarrow> xml" where
  "channel_xml data =
     Element ''channel'' [(''id'', telerama_to_xmltv_id (data ! 0))] None
       [simple ''display-name'' (data ! 1)]"

definition fields_of :: "string \<Rightarrow> string list" where
  "fields_of program = map strip (split_str ''$$$'' program)"

definition add_program ::
  "library \<Rightarrow> xml list \<times> string list \<Rightarrow> string \<Rightarrow> error + xml list \<times> string list" where
  "add_program lib st program =
     (let data = fields_of program;
          channel_id = telerama_to_xmltv_id (data ! 0)
      in case etree_find lib (channel_path channel_id) (fst st) of
           Inl e \<Rightarrow> Inl e
         | Inr found \<Rightarrow>
             if length data < 13 then Inl IndexError
             else
               (let root = (if found = None then channel_xml data # fst st else fst st)
                in case program_xml lib data of
                     Inl e \<Rightarrow> Inl e
                   | Inr (p, err) \<Rightarrow> Inr (root @ [p], snd st @ err)))"

fun add_programs ::
  "library \<Rightarrow> xml list \<times> string list \<Rightarrow> string list \<Rightarrow> error + xml list \<times> string list" where
  "add_programs lib st [] = Inr st"
| "add_programs lib st (program # programs) =
     (case add_program lib st program of
        Inl e \<Rightarrow> Inl e
      | Inr st' \<Rightarrow> add_programs lib st' programs)"

fun add_all ::
  "library \<Rightarrow> xml list \<times> string list \<Rightarrow> string list list \<Rightarrow> error + xml list \<times> string list" where
  "add_all lib st [] = Inr st"
| "add_all lib st (programs # telerama_programs) =
     (case add_programs lib st programs of
        Inl e \<Rightarrow> Inl e
      | Inr st' \<Rightarrow> add_all lib st' telerama_programs)"

text \<open>
  \<open>write_xmltv_data\<close> after the downloads: \<open>telerama_programs\<close> holds, for each day and
  channel, the records fetched. The result is the root element written to the output,
  with the lines printed on the error stream.
\<close>

definition write_xmltv_data :: "library \<Rightarrow> string list list \<Rightarrow> error + xml \<times> string list" where
  "write_xmltv_data lib telerama_programs =
     (case add_all lib ([], []) telerama_programs of
        Inl e \<Rightarrow> Inl e
      | Inr (root, err) \<Rightarrow>
          Inr (Element ''tv''
                 [(''generator-info-name'', ''tv_grab_fr_telerama''),
                  (''source-info-name'', ''T'' @ [e_acute] @ ''l'' @ [e_acute] @ ''rama''),
                  (''source-info-url'', ''http://guidetv-iphone.telerama.fr/'')]
                 None root,
               err))"

section \<open>A library instance for the examples\<close>

text \<open>
  The examples below run the model with this instance of the library parameters. It is
  made for the inputs of the examples, which are dated in the winters of 2024, and it
  is not the libraries elsewhere. Its \<open>strptime\<close> accepts the form \<open>dd/mm/YYYY HH:MM:SS\<close>
  with two digits in each field, one space and seconds below 60 only (Python also accepts
  fields of one digit, any white space between date and time, and the seconds 60 and
  61). Its offset is always \<open>+01:00\<close>, the offset of Paris in winter (\<open>pytz\<close> gives
  \<open>+02:00\<close> in summer, and other offsets before 1945). Its \<open>strftime\<close> knows the three
  formats of the program and writes the year with four digits (that of Python writes
  a year before 1000 without the leading zeros). Its \<open>find\<close> reads a path of one or two
  steps of the form \<open>tag[@key="value"]\<close>, the second after \<open>/\<close>, as ElementTree does, and
  answers SyntaxError to every other text.
\<close>

definition is_leap :: "int \<Rightarrow> bool" where
  "is_leap y = (y mod 4 = 0 \<and> (y mod 100 \<noteq> 0 \<or> y mod 400 = 0))"

definition days_in_month :: "int \<Rightarrow> int \<Rightarrow> int" where
  "days_in_month y m =
     (if m = 2 then (if is_leap y then 29 else 28)
      else if m = 4 \<or> m = 6 \<or> m = 9 \<or> m = 11 then 30 else 31)"

definition ymd_to_ordinal :: "int \<Rightarrow> int \<Rightarrow> int \<Rightarrow> int" where
  "ymd_to_ordinal y m d =
     365 * (y - 1) + (y - 1) div 4 - (y - 1) div 100 + (y - 1) div 400
     + sum_list (map (\<lambda>k. days_in_month y (int k)) [1..<nat m]) + d"

text \<open>
  From the ordinal back to year, month and day, by the usual count of days from 1 March
  of year 0 in cycles of 400 years; each step is a function of its own, so that it is
  evaluated once.
\<close>

definition civil :: "int \<Rightarrow> int \<Rightarrow> int \<Rightarrow> int \<Rightarrow> int \<times> int \<times> int" where
  "civil era yoe doy mp =
     (yoe + era * 400 + (if mp < 10 then 0 else 1),
      (if mp < 10 then mp + 3 else mp - 9),
      doy - (153 * mp + 2) div 5 + 1)"

definition civil_doy :: "int \<Rightarrow> int \<Rightarrow> int \<Rightarrow> int \<times> int \<times> int" where
  "civil_doy era yoe doy = civil era yoe doy ((5 * doy + 2) div 153)"

definition civil_yoe :: "int \<Rightarrow> int \<Rightarrow> int \<Rightarrow> int \<times> int \<times> int" where
  "civil_yoe era doe yoe = civil_doy era yoe (doe - (365 * yoe + yoe div 4 - yoe div 100))"

definition civil_doe :: "int \<Rightarrow> int \<Rightarrow> int \<times> int \<times> int" where
  "civil_doe era doe =
     civil_yoe era doe ((doe - doe div 1460 + doe div 36524 - doe div 146096) div 365)"

definition ordinal_to_ymd :: "int \<Rightarrow> int \<times> int \<times> int" where
  "ordinal_to_ymd n = civil_doe ((n + 305) div 146097) ((n + 305) mod 146097)"

definition number :: "string \<Rightarrow> int option" where
  "number ds = (if ds \<noteq> [] \<and> list_all isdigit ds then Some (int_of_digits ds) else None)"

definition example_strptime :: "string \<Rightarrow> string \<Rightarrow> (int \<times> int) option" where
  "example_strptime t format =
     (if format = ''%d/%m/%Y %H:%M:%S'' \<and> length t = 19
         \<and> slice t 2 3 = ''/'' \<and> slice t 5 6 = ''/'' \<and> slice t 10 11 = '' ''
         \<and> slice t 13 14 = '':'' \<and> slice t 16 17 = '':'' then
        (case (number (slice t 0 2), number (slice t 3 5), number (slice t 6 10),
               number (slice t 11 13), number (slice t 14 16), number (slice t 17 19)) of
           (Some d, Some m, Some y, Some H, Some M, Some S) \<Rightarrow>
             if 1 \<le> y \<and> 1 \<le> m \<and> m \<le> 12 \<and> 1 \<le> d \<and> d \<le> days_in_month y m
                \<and> H < 24 \<and> M < 60 \<and> S < 60
             then Some (ymd_to_ordinal y m d, H * 3600 + M * 60 + S) else None
         | _ \<Rightarrow> None)
      else None)"

definition pad :: "nat \<Rightarrow> int \<Rightarrow> string" where
  "pad w n = replicate (w - length (str_of_int n)) CHR ''0'' @ str_of_int n"

definition format_fields :: "string \<Rightarrow> int \<times> int \<times> int \<Rightarrow> int \<Rightarrow> int \<Rightarrow> string" where
  "format_fields format ymd secs off =
     (if format = ''%Y%m%d%H%M%S %z'' then
        pad 4 (fst ymd) @ pad 2 (fst (snd ymd)) @ pad 2 (snd (snd ymd))
        @ pad 2 (secs div 3600) @ pad 2 (secs mod 3600 div 60) @ pad 2 (secs mod 60) @ '' ''
        @ (if off < 0 then ''-'' else ''+'') @ pad 2 (\<bar>off\<bar> div 3600)
        @ pad 2 (\<bar>off\<bar> mod 3600 div 60)
      else if format = ''%Y-%m-%d'' then
        pad 4 (fst ymd) @ ''-'' @ pad 2 (fst (snd ymd)) @ ''-'' @ pad 2 (snd (snd ymd))
      else if format = ''%H:%M'' then pad 2 (secs div 3600) @ '':'' @ pad 2 (secs mod 3600 div 60)
      else [])"

definition example_strftime :: "string \<Rightarrow> datetime \<Rightarrow> string" where
  "example_strftime format d =
     format_fields format (ordinal_to_ymd (ordinal d)) (second_of_day d) (utcoffset d)"

text \<open>
  \<open>take_until c s\<close> cuts \<open>s\<close> at the first \<open>c\<close>. \<open>parse_step\<close> reads one step
  \<open>tag[@key="value"]\<close> at the head of a path and returns the tag, the key, the value and
  the rest of the path. A step selects, among the children of the elements reached so
  far, those with the tag and the attribute; \<open>find\<close> returns the first in document order.
\<close>

definition take_until :: "char \<Rightarrow> string \<Rightarrow> (string \<times> string) option" where
  "take_until c s =
     (if c \<in> set s then Some (takeWhile (\<lambda>x. x \<noteq> c) s, drop 1 (dropWhile (\<lambda>x. x \<noteq> c) s))
      else None)"

definition parse_step :: "string \<Rightarrow> ((string \<times> string \<times> string) \<times> string) option" where
  "parse_step path =
     (case take_until CHR ''['' path of
        None \<Rightarrow> None
      | Some (t, r1) \<Rightarrow>
          (case take_until CHR ''='' r1 of
             None \<Rightarrow> None
           | Some (k, r2) \<Rightarrow>
               (case take_until (CHR 0x22) (drop 1 r2) of
                  None \<Rightarrow> None
                | Some (v, r3) \<Rightarrow>
                    if t \<noteq> [] \<and> take 1 k = ''@'' \<and> take 1 r2 = [CHR 0x22] \<and> take 1 r3 = '']''
                    then Some ((t, drop 1 k, v), drop 1 r3)
                    else None)))"

definition selects :: "string \<times> string \<times> string \<Rightarrow> xml \<Rightarrow> bool" where
  "selects step e = (tag e = fst step \<and> map_of (attrib e) (fst (snd step)) = Some (snd (snd step)))"

definition example_find :: "string \<Rightarrow> xml list \<Rightarrow> error + xml option" where
  "example_find path root =
     (case parse_step path of
        None \<Rightarrow> Inl SyntaxError
      | Some (step1, rest) \<Rightarrow>
          if rest = [] then Inr (find (selects step1) root)
          else if take 1 rest = ''/'' then
            (case parse_step (drop 1 rest) of
               None \<Rightarrow> Inl SyntaxError
             | Some (step2, rest2) \<Rightarrow>
                 if rest2 = [] then
                   Inr (find (selects step2) (concat (map children (filter (selects step1) root))))
                 else Inl SyntaxError)
          else Inl SyntaxError)"

definition example_lib :: library where
  "example_lib = \<lparr>strptime = example_strptime, paris_offset = (\<lambda>n. 3600),
                    strftime = example_strftime, etree_find = example_find\<rparr>"

text \<open>A record of the feed: its thirteen fields joined by \<open>$$$\<close>.\<close>

definition record_of :: "string list \<Rightarrow> string" where
  "record_of fs = join ''$$$'' fs"

definition lines :: "string list \<Rightarrow> string" where
  "lines ls = join [newline] ls"

section \<open>Notions used to state the properties of the document\<close>

text \<open>
  \<open>channel_of data\<close> is the public channel identifier of a record. \<open>first_seen seen xs\<close>
  keeps, in order, the first occurrence of every element of \<open>xs\<close> that is not in \<open>seen\<close>;
  \<open>new_channels seen ds\<close> keeps in the same way the records that bring a channel
  identifier for the first time.
\<close>

definition channel_of :: "string list \<Rightarrow> string" where
  "channel_of data = telerama_to_xmltv_id (data ! 0)"


fun new_channels :: "string list \<Rightarrow> string list list \<Rightarrow> string list list" where
  "new_channels seen [] = []"
| "new_channels seen (d # ds) =
     (if channel_of d \<in> set seen then new_channels seen ds
      else d # new_channels (channel_of d # seen) ds)"

definition channel_id :: "xml \<Rightarrow> string option" where
  "channel_id e = map_of (attrib e) ''id''"

text \<open>
  \<open>programme_of lib program p\<close>: \<open>p\<close> is the programme element the mapper builds for the
  record \<open>program\<close>. \<open>document_channels\<close> lists the identifiers of the channel elements
  of the document a run returns, in document order.
\<close>

definition programme_of :: "library \<Rightarrow> string \<Rightarrow> xml \<Rightarrow> bool" where
  "programme_of lib program p = (\<exists>e. program_xml lib (fields_of program) = Inr (p, e))"

definition document_channels :: "error + xml \<times> string list \<Rightarrow> string option list" where
  "document_channels result =
     (case result of
        Inr (doc, err) \<Rightarrow> map channel_id (filter (\<lambda>e. tag e = ''channel'') (children doc))
      | Inl e \<Rightarrow> [])"

definition example_record :: "string \<Rightarrow> string \<Rightarrow> string" where
  "example_record native_id name =
     record_of [native_id, name, ''t'', ''20:00:00'', ''21:00:00'', ''Film'', [], ''En 4:3'',
                ''0'', [], ''0'', [], ''01/03/2024'']"

text \<open>
  \<open>document_display_names\<close> lists, for each channel element of the document in document
  order, the texts of its children (the display names). \<open>quoted_id\<close> is the native channel
  identifier \<open>x"]/y[@z="\<close>.
\<close>

definition document_display_names :: "error + xml \<times> string list \<Rightarrow> string option list list" where
  "document_display_names result =
     (case result of
        Inr (doc, err) \<Rightarrow>
          map (\<lambda>e. map text_of (children e)) (filter (\<lambda>e. tag e = ''channel'') (children doc))
      | Inl e \<Rightarrow> [])"

definition quoted_id :: string where
  "quoted_id = ''x'' @ [CHR 0x22] @ '']/y[@z='' @ [CHR 0x22]"

text \<open>
  Records for the examples: \<open>record_with_details\<close> with a given details block,
  \<open>record_with_times\<close> with a given date, start time and stop time. \<open>autumn_lib\<close> is the
  example library with the offsets of Paris on 27 October 2024, the day the clocks go
  back: \<open>+02:00\<close> before 02:00 on the wall clock and \<open>+01:00\<close> from then on.
\<close>

definition record_with_details :: "string \<Rightarrow> string" where
  "record_with_details details =
     record_of [''192'', ''TF1'', ''Journal'', ''20:00:00'', ''21:00:00'', ''Film'', [], details,
                ''0'', [], ''0'', [], ''01/03/2024'']"

definition record_with_times :: "string \<Rightarrow> string \<Rightarrow> string \<Rightarrow> string" where
  "record_with_times date start stop =
     record_of [''192'', ''TF1'', ''Journal'', start, stop, ''Film'', [], ''En 4:3'',
                ''0'', [], ''0'', [], date]"

definition autumn_lib :: library where
  "autumn_lib = example_lib\<lparr>paris_offset := (\<lambda>n. if snd n < 7200 then 7200 else 3600)\<rparr>"

section \<open>Auxiliary lemmas\<close>

lemma join_snoc2: "join sep (xs @ [x, y]) = join sep (xs @ [x]) @ sep @ y"
  by (induction sep xs rule: join.induct) auto

lemma join_snoc_char: "join sep (xs @ [x @ [c]]) = join sep (xs @ [x]) @ [c]"
  by (induction sep xs rule: join.induct) auto

lemma slice_eq_iff:
  assumes "i \<le> length s"
  shows "slice s i (i + length sep) = sep \<longleftrightarrow> i + length sep \<le> length s \<and> take (length sep) (drop i s) = sep"
proof -
  have "length (take (length sep) (drop i s)) = min (length sep) (length s - i)" by simp
  then show ?thesis
    using assms unfolding slice_def by (cases "i + length sep \<le> length s") (auto simp: min_def split: if_splits)
qed

lemma slice_drop:
  assumes "slice s i (i + length sep) = sep"
  shows "drop i s = sep @ drop (i + length sep) s"
proof -
  have "take (length sep) (drop i s) = sep" using assms by (simp add: slice_def)
  then show ?thesis by (metis append_take_drop_id drop_drop add.commute)
qed

text \<open>Induction principle over the loop for a non-empty separator.\<close>

lemma split_loop_rule:
  fixes Q :: "nat \<Rightarrow> int \<Rightarrow> string \<Rightarrow> string list \<Rightarrow> string list \<Rightarrow> bool"
  assumes sep: "separator \<noteq> []"
    and stop: "\<And>i level tmp result. \<not> i < length string \<Longrightarrow> Q i level tmp result (result @ [tmp])"
    and split: "\<And>i level tmp result r.
        i < length string \<Longrightarrow> slice string i (i + length separator) = separator \<Longrightarrow> level = 0 \<Longrightarrow>
        Q (i + length separator) level [] (result @ [tmp]) r \<Longrightarrow> Q i level tmp result r"
    and step: "\<And>i level tmp result r.
        i < length string \<Longrightarrow> \<not> (slice string i (i + length separator) = separator \<and> level = 0) \<Longrightarrow>
        Q (i + 1)
          (if slice string i (i + length d1) = d1 then level + 1
           else if slice string i (i + length d2) = d2 then level - 1 else level)
          (tmp @ [string ! i]) result r \<Longrightarrow> Q i level tmp result r"
  shows "\<exists>r. split_loop string separator d1 d2 i level tmp result = Some r \<and> Q i level tmp result r"
proof (induction "length string - i" arbitrary: i level tmp result rule: less_induct)
  case less
  show ?case
  proof (cases "i < length string")
    case False
    then show ?thesis using stop[OF False] by (subst split_loop.simps) simp
  next
    case True
    show ?thesis
    proof (cases "slice string i (i + length separator) = separator \<and> level = 0")
      case sp: True
      have "length string - (i + length separator) < length string - i"
        using True sep by (cases separator) auto
      from less.hyps[OF this, of level "[]" "result @ [tmp]"]
      obtain r where r: "split_loop string separator d1 d2 (i + length separator) level [] (result @ [tmp]) = Some r"
        "Q (i + length separator) level [] (result @ [tmp]) r" by blast
      have "Q i level tmp result r" using split[OF True _ _ r(2)] sp by simp
      then show ?thesis using sp r(1) True by (subst split_loop.simps) simp
    next
      case ns: False
      let ?l = "if slice string i (i + length d1) = d1 then level + 1
           else if slice string i (i + length d2) = d2 then level - 1 else level"
      have "length string - (i + 1) < length string - i" using True by simp
      from less.hyps[OF this, of ?l "tmp @ [string ! i]" result]
      obtain r where r: "split_loop string separator d1 d2 (i + 1) ?l (tmp @ [string ! i]) result = Some r"
        "Q (i + 1) ?l (tmp @ [string ! i]) result r" by blast
      have "Q i level tmp result r" using step[OF True ns r(2)] .
      then show ?thesis using ns r(1) True by (subst split_loop.simps) auto
    qed
  qed
qed

lemma split_loop_lossless:
  assumes "separator \<noteq> []"
  shows "\<exists>r. split_loop string separator d1 d2 i level tmp result = Some r
       \<and> (i \<le> length string \<longrightarrow> join separator r = join separator (result @ [tmp]) @ drop i string)"
proof (rule split_loop_rule[OF assms])
  fix i :: nat and level :: int and tmp result
  assume "\<not> i < length string"
  then show "i \<le> length string \<longrightarrow> join separator (result @ [tmp]) = join separator (result @ [tmp]) @ drop i string"
    by simp
next
  fix i :: nat and level :: int and tmp result r
  assume a: "i < length string" "slice string i (i + length separator) = separator"
    and q: "i + length separator \<le> length string \<longrightarrow>
      join separator r = join separator ((result @ [tmp]) @ [[]]) @ drop (i + length separator) string"
  have "i + length separator \<le> length string" using a by (simp add: slice_eq_iff)
  with q slice_drop[OF a(2)]
  show "i \<le> length string \<longrightarrow> join separator r = join separator (result @ [tmp]) @ drop i string"
    by (simp add: join_snoc2)
next
  fix i :: nat and level :: int and tmp result r
  assume a: "i < length string"
    and q: "i + 1 \<le> length string \<longrightarrow>
      join separator r = join separator (result @ [tmp @ [string ! i]]) @ drop (i + 1) string"
  have "drop i string = string ! i # drop (i + 1) string"
    using a by (simp add: Cons_nth_drop_Suc)
  with a q show "i \<le> length string \<longrightarrow> join separator r = join separator (result @ [tmp]) @ drop i string"
    by (simp add: join_snoc_char)
qed

lemma split_loop_empty_sep_Some:
  assumes "split_loop string separator d1 d2 i level tmp result = Some r"
  shows "\<not> (separator = [] \<and> i < length string \<and> level = 0)"
proof (rule split_loop.raw_induct[where P = "\<lambda>string separator d1 d2 i level tmp result r.
         \<not> (separator = [] \<and> i < length string \<and> level = 0)", OF _ assms])
  fix f :: "string \<Rightarrow> string \<Rightarrow> string \<Rightarrow> string \<Rightarrow> nat \<Rightarrow> int \<Rightarrow> string \<Rightarrow> string list \<Rightarrow> string list option"
    and string separator d1 d2 :: string and i :: nat and level :: int and tmp :: string
    and result r :: "string list"
  assume IH: "\<And>string separator d1 d2 i level tmp result r.
     f string separator d1 d2 i level tmp result = Some r \<Longrightarrow>
     \<not> (separator = [] \<and> i < length string \<and> level = (0::int))"
  and body: "(if i < length string
      then if slice string i (i + length separator) = separator \<and> level = 0
           then f string separator d1 d2
                 (i + length separator) level [] (result @ [tmp])
           else f string separator d1 d2 (i + 1)
                 (if slice string i (i + length d1) = d1
                  then level + 1
                  else if slice string i (i + length d2) = d2
                       then level - 1 else level)
                 (tmp @ [string ! i]) result
      else Some (result @ [tmp])) = Some r"
  show "\<not> (separator = [] \<and> i < length string \<and> level = 0)"
  proof
    assume a: "separator = [] \<and> i < length string \<and> level = 0"
    with body have "f string separator d1 d2 i level [] (result @ [tmp]) = Some r"
      by (simp add: slice_def)
    from IH[OF this] a show False by simp
  qed
qed

lemma split_points_snoc2:
  "split_points n st (xs @ [x, y]) = split_points n st (xs @ [x]) @ [st + length (join sep (xs @ [x]))]"
  if "length sep = n"
  using that
proof (induction n st xs rule: split_points.induct)
  case (1 n start) then show ?case by simp
next
  case (2 n start x') then show ?case by simp
next
  case (3 n start x' y' ys) then show ?case by simp
qed

lemma split_points_last_irrelevant:
  "split_points n st (xs @ [x]) = split_points n st (xs @ [y])"
  by (induction n st xs rule: split_points.induct) auto

lemma length_split_points: "length (split_points n st r) = length r - 1"
  by (induction n st r rule: split_points.induct) auto

lemma split_points_ge: "p \<in> set (split_points n st r) \<Longrightarrow> st \<le> p"
  by (induction n st r rule: split_points.induct) auto

lemma last_segment_gen:
  "r \<noteq> [] \<Longrightarrow> length sep = n \<Longrightarrow>
   last r = drop ((if split_points n st r = [] then st else last (split_points n st r) + n) - st) (join sep r)"
proof (induction n st r rule: split_points.induct)
  case (1 n start)
  then show ?case by simp
next
  case (2 n start x)
  then show ?case by simp
next
  case (3 n start x y ys)
  let ?st = "start + length x + n"
  let ?sp = "split_points n ?st (y # ys)"
  show ?case
  proof (cases "?sp = []")
    case True
    then have "ys = []" using length_split_points[of n ?st "y # ys"] by simp
    then show ?thesis using 3 by simp
  next
    case False
    then have "?st \<le> last ?sp" using split_points_ge[of "last ?sp" n ?st "y # ys"] by simp
    then have "last ?sp + n - start = (last ?sp + n - ?st) + (length x + n)" by simp
    moreover have "last (y # ys) = drop (last ?sp + n - ?st) (join sep (y # ys))"
      using 3 False by simp
    ultimately show ?thesis using False 3(3) by (simp del: last.simps add: last_ConsR)
  qed
qed

lemma overlap_bordered:
  assumes i: "slice s i (i + length sep) = sep" and j: "slice s j (j + length sep) = sep"
    and ij: "i < j" "j < i + length sep" and len: "j < length s"
  shows "\<not> unbordered sep"
proof -
  let ?m = "length sep"
  let ?k = "i + ?m - j"
  have k: "1 \<le> ?k" "?k < ?m" using ij by auto
  have ti: "take ?m (drop i s) = sep" using i by (simp add: slice_def)
  have tj: "take ?m (drop j s) = sep" using j by (simp add: slice_def)
  have "drop (?m - ?k) sep = drop (j - i) (take ?m (drop i s))"
    using ti ij by simp
  also have "\<dots> = take (?m - (j - i)) (drop (j - i) (drop i s))"
    by (simp add: drop_take)
  also have "\<dots> = take ?k (drop j s)" using ij by (simp add: add.commute)
  also have "\<dots> = take ?k (take ?m (drop j s))" using k by (simp add: min_def)
  also have "\<dots> = take ?k sep" using tj by simp
  finally have "take ?k sep = drop (?m - ?k) sep" by simp
  with k show ?thesis unfolding unbordered_def by (auto intro!: bexI[of _ ?k])
qed

lemma slice_single: "i < length s \<Longrightarrow> slice s i (i + length [c]) = [c] \<longleftrightarrow> s ! i = c"
  by (simp add: slice_def take_Suc_conv_app_nth hd_drop_conv_nth take_Suc)

lemma nesting_level_Suc:
  assumes "i < length s" "a \<noteq> b"
  shows "nesting_level a b s (Suc i) =
     (if s ! i = a then nesting_level a b s i + 1
      else if s ! i = b then nesting_level a b s i - 1 else nesting_level a b s i)"
  using assms by (simp add: nesting_level_def take_Suc_conv_app_nth)

lemma nesting_level_skip:
  assumes "slice s i (i + length sep) = sep" "a \<notin> set sep" "b \<notin> set sep"
  shows "nesting_level a b s (i + length sep) = nesting_level a b s i"
proof -
  have "take (i + length sep) s = take i s @ take (length sep) (drop i s)"
    by (simp add: take_add)
  also have "\<dots> = take i s @ sep" using assms(1) by (simp add: slice_def)
  finally show ?thesis using assms(2,3) by (simp add: nesting_level_def)
qed

lemma upt_split3:
  assumes "i < n" "0 < m" "i + m \<le> n"
  shows "[i..<n] = i # [Suc i..<i + m] @ [i + m..<n]"
proof -
  have "[i..<n] = i # [Suc i..<n]" using upt_conv_Cons[OF assms(1)] .
  moreover have "[Suc i..<n] = [Suc i..<i + m] @ [i + m..<n]"
  proof -
    have "Suc i \<le> i + m" using assms(2) by simp
    from upt_add_eq_append[OF this, of "n - (i + m)"] assms(3)
    show ?thesis by simp
  qed
  ultimately show ?thesis by simp
qed

lemma no_occ_inside:
  assumes m: "slice s i (i + length sep) = sep" and ub: "unbordered sep"
    and le: "i + length sep \<le> length s"
  shows "filter (occurs_at_level_zero sep a b s) [Suc i..<i + length sep] = []"
proof -
  have "\<not> occurs_at_level_zero sep a b s j" if "j \<in> set [Suc i..<i + length sep]" for j
  proof
    assume o: "occurs_at_level_zero sep a b s j"
    from that have ij: "i < j" "j < i + length sep" by auto
    have jl: "j < length s" using that le by auto
    from o have oj: "slice s j (j + length sep) = sep" by (simp add: occurs_at_level_zero_def)
    show False using overlap_bordered[OF m oj ij jl] ub by simp
  qed
  then show ?thesis by (simp add: filter_empty_conv)
qed

lemma points_inv_split:
  assumes sep: "sep \<noteq> []" and na: "a \<notin> set sep" and nb: "b \<notin> set sep" and ub: "unbordered sep"
    and i: "i < length s" and m: "slice s i (i + length sep) = sep" and l0: "level = 0"
    and q: "points_inv sep a b s (i + length sep) level [] (result @ [tmp]) r"
  shows "points_inv sep a b s i level tmp result r"
  unfolding points_inv_def
proof (intro impI, elim conjE)
  assume lv: "level = nesting_level a b s i" and jn: "join sep (result @ [tmp]) = take i s"
  have le: "i + length sep \<le> length s" using m i by (simp add: slice_eq_iff)
  have lv': "level = nesting_level a b s (i + length sep)"
    using lv nesting_level_skip[OF m na nb] by simp
  have "take (i + length sep) s = take i s @ sep"
    using m by (simp add: take_add slice_def)
  then have jn': "join sep ((result @ [tmp]) @ [[]]) = take (i + length sep) s"
    using jn by (simp add: join_snoc2)
  have r: "split_points (length sep) 0 r =
      split_points (length sep) 0 ((result @ [tmp]) @ [[]]) @ filter (occurs_at_level_zero sep a b s) [i + length sep..<length s]"
    using q le lv' jn' unfolding points_inv_def by (elim impE) (intro conjI, assumption+)
  have "length (join sep (result @ [tmp])) = i" using jn i by simp
  then have sp: "split_points (length sep) 0 ((result @ [tmp]) @ [[]]) = split_points (length sep) 0 (result @ [tmp]) @ [i]"
    using split_points_snoc2[of sep "length sep" 0 result tmp "[]"] by simp
  have oi: "occurs_at_level_zero sep a b s i" using m l0 lv by (simp add: occurs_at_level_zero_def)
  have "0 < length sep" using sep by simp
  from upt_split3[OF i this le]
  have "filter (occurs_at_level_zero sep a b s) [i..<length s] = i # filter (occurs_at_level_zero sep a b s) [i + length sep..<length s]"
    using no_occ_inside[OF m ub le, of a b] oi by simp
  with r sp show "split_points (length sep) 0 r =
      split_points (length sep) 0 (result @ [tmp]) @ filter (occurs_at_level_zero sep a b s) [i..<length s]" by simp
qed

lemma points_inv_step:
  assumes ab: "a \<noteq> b"
    and i: "i < length s" and nm: "\<not> (slice s i (i + length sep) = sep \<and> level = 0)"
    and q: "points_inv sep a b s (i + 1)
          (if slice s i (i + length [a]) = [a] then level + 1
           else if slice s i (i + length [b]) = [b] then level - 1 else level)
          (tmp @ [s ! i]) result r"
  shows "points_inv sep a b s i level tmp result r"
  unfolding points_inv_def
proof (intro impI, elim conjE)
  let ?l = "if slice s i (i + length [a]) = [a] then level + 1
           else if slice s i (i + length [b]) = [b] then level - 1 else level"
  assume lv: "level = nesting_level a b s i" and jn: "join sep (result @ [tmp]) = take i s"
  have sa: "slice s i (i + length [a]) = [a] \<longleftrightarrow> s ! i = a" by (rule slice_single[OF i])
  have sb: "slice s i (i + length [b]) = [b] \<longleftrightarrow> s ! i = b" by (rule slice_single[OF i])
  have lv': "?l = nesting_level a b s (i + 1)"
    unfolding sa sb using nesting_level_Suc[OF i ab] lv by simp
  have jn': "join sep (result @ [tmp @ [s ! i]]) = take (i + 1) s"
    using jn i by (simp add: join_snoc_char take_Suc_conv_app_nth)
  have i1: "i + 1 \<le> length s" using i by simp
  have r: "split_points (length sep) 0 r =
      split_points (length sep) 0 (result @ [tmp @ [s ! i]]) @ filter (occurs_at_level_zero sep a b s) [i + 1..<length s]"
    using q i1 lv' jn' unfolding points_inv_def by (elim impE) (intro conjI, assumption+)
  have "\<not> occurs_at_level_zero sep a b s i" using nm lv by (simp add: occurs_at_level_zero_def)
  then have "filter (occurs_at_level_zero sep a b s) [i..<length s] = filter (occurs_at_level_zero sep a b s) [i + 1..<length s]"
    by (subst upt_conv_Cons[OF i]) simp
  with r split_points_last_irrelevant[of "length sep" 0 result "tmp @ [s ! i]" tmp]
  show "split_points (length sep) 0 r =
      split_points (length sep) 0 (result @ [tmp]) @ filter (occurs_at_level_zero sep a b s) [i..<length s]" by simp
qed

lemma split_loop_points:
  assumes sep: "sep \<noteq> []" and ab: "a \<noteq> b" and na: "a \<notin> set sep" and nb: "b \<notin> set sep"
    and ub: "unbordered sep"
  shows "\<exists>r. split_loop s sep [a] [b] i level tmp result = Some r \<and>
     points_inv sep a b s i level tmp result r"
proof (rule split_loop_rule[OF sep])
  fix i :: nat and level :: int and tmp result
  assume "\<not> i < length s"
  then show "points_inv sep a b s i level tmp result (result @ [tmp])"
    by (simp add: points_inv_def)
next
  fix i :: nat and level :: int and tmp result r
  assume "i < length s" "slice s i (i + length sep) = sep" "level = 0"
    "points_inv sep a b s (i + length sep) level [] (result @ [tmp]) r"
  then show "points_inv sep a b s i level tmp result r"
    by (rule points_inv_split[OF sep na nb ub])
next
  fix i :: nat and level :: int and tmp result r
  assume "i < length s" "\<not> (slice s i (i + length sep) = sep \<and> level = 0)"
    "points_inv sep a b s (i + 1)
          (if slice s i (i + length [a]) = [a] then level + 1
           else if slice s i (i + length [b]) = [b] then level - 1 else level)
          (tmp @ [s ! i]) result r"
  then show "points_inv sep a b s i level tmp result r"
    by (rule points_inv_step[OF ab])
qed

lemma split_loop_nonempty:
  assumes "sep \<noteq> []"
  shows "\<exists>r. split_loop s sep d1 d2 i level tmp result = Some r \<and> r \<noteq> []"
  by (rule split_loop_rule[OF assms]) simp_all

lemma unbordered_suffix: "unbordered ''.tv.telerama.fr''"
  unfolding unbordered_def by code_simp

lemma prefix_append_bordered:
  assumes p: "prefix S (c @ S)" and c: "c \<noteq> []" and ns: "\<not> sublist S c"
  shows "\<not> unbordered S"
proof -
  have lt: "length c < length S"
  proof (rule ccontr)
    assume "\<not> length c < length S"
    then have "prefix S c" using p by (auto simp: prefix_append not_less)
    then show False using ns by (auto simp: prefix_def sublist_def intro: exI[of _ "[]"])
  qed
  then have "prefix c S" using p by (auto simp: prefix_append dest: prefix_length_le)
  then obtain t where t: "S = c @ t" by (auto simp: prefix_def)
  from p obtain u where "c @ S = S @ u" by (auto simp: prefix_def)
  with t have "c @ t = t @ u" by (metis append_assoc same_append_eq)
  with t have S: "S = t @ u" by simp
  have lu: "length u = length c" using S t by (metis length_append add.commute add_left_cancel)
  let ?k = "length t"
  have "t \<noteq> []" using lt t by auto
  then have "0 < ?k" by simp
  then have k: "1 \<le> ?k" "?k < length S" using t c by (simp_all add: Suc_le_eq)
  have "take ?k S = t" using S by simp
  moreover have "drop (length S - ?k) S = t" using t by simp
  ultimately show ?thesis using k unfolding unbordered_def by (auto intro!: bexI[of _ ?k])
qed

lemma replace_append_suffix:
  assumes ub: "unbordered S" and S: "S \<noteq> []"
  shows "\<not> sublist S c \<Longrightarrow> replace_str S [] (c @ S) = c"
proof (induction c)
  case Nil
  show ?case using S by (simp add: replace_str.simps[of S "[]" S] replace_str.simps[of S "[]" "[]"])
next
  case (Cons x xs)
  have np: "\<not> prefix S ((x # xs) @ S)"
    using prefix_append_bordered[of S "x # xs"] Cons.prems ub by blast
  have "\<not> sublist S xs" using Cons.prems by (simp add: sublist_Cons_right)
  then have "replace_str S [] (xs @ S) = xs" by (rule Cons.IH)
  then show ?case using np S by (simp add: replace_str.simps[of S "[]" "x # xs @ S"])
qed

lemma program_xml_tag: "program_xml lib data = Inr (p, e) \<Longrightarrow> tag p = ''programme''"
  by (auto simp: program_xml_def split: sum.splits option.splits prod.splits)

lemma new_channels_cong: "set seen = set seen' \<Longrightarrow> new_channels seen ds = new_channels seen' ds"
proof (induction ds arbitrary: seen seen')
  case Nil
  then show ?case by simp
next
  case (Cons d ds)
  have "new_channels (channel_of d # seen) ds = new_channels (channel_of d # seen') ds"
    by (rule Cons.IH) (simp add: Cons.prems)
  then show ?case using Cons.prems Cons.IH[OF Cons.prems] by simp
qed

lemma new_channels_append:
  "new_channels seen (ds @ es) =
   new_channels seen ds @ new_channels (map channel_of (new_channels seen ds) @ seen) es"
proof (induction ds arbitrary: seen)
  case Nil
  then show ?case by simp
next
  case (Cons d ds)
  show ?case
  proof (cases "channel_of d \<in> set seen")
    case True
    then show ?thesis using Cons.IH[of seen] by simp
  next
    case False
    have "new_channels (map channel_of (new_channels (channel_of d # seen) ds) @ channel_of d # seen) es
        = new_channels (channel_of d # map channel_of (new_channels (channel_of d # seen) ds) @ seen) es"
      by (rule new_channels_cong) auto
    then show ?thesis using False Cons.IH[of "channel_of d # seen"] by simp
  qed
qed

lemma find_channel_None:
  assumes "\<forall>p \<in> set progs. tag p = ''programme''"
  shows "find_channel (rev (map channel_xml cs) @ progs) cid = None \<longleftrightarrow> cid \<notin> set (map channel_of cs)"
proof
  assume n: "find_channel (rev (map channel_xml cs) @ progs) cid = None"
  show "cid \<notin> set (map channel_of cs)"
  proof
    assume "cid \<in> set (map channel_of cs)"
    then obtain d where d: "d \<in> set cs" "cid = channel_of d" by auto
    then have "channel_xml d \<in> set (rev (map channel_xml cs) @ progs)" by simp
    moreover have "tag (channel_xml d) = ''channel'' \<and> map_of (attrib (channel_xml d)) ''id'' = Some cid"
      using d(2) by (simp add: channel_xml_def channel_of_def)
    ultimately show False using n unfolding find_channel_def find_None_iff by blast
  qed
next
  assume "cid \<notin> set (map channel_of cs)"
  then have "\<not> (tag e = ''channel'' \<and> map_of (attrib e) ''id'' = Some cid)"
    if "e \<in> set (rev (map channel_xml cs) @ progs)" for e
    using that assms by (auto simp: channel_xml_def channel_of_def)
  then show "find_channel (rev (map channel_xml cs) @ progs) cid = None"
    unfolding find_channel_def find_None_iff by blast
qed

lemma programme_tags:
  "list_all2 (programme_of lib) programs ps \<Longrightarrow> \<forall>q \<in> set ps. tag q = ''programme''"
  by (induction rule: list_all2_induct) (auto simp: programme_of_def dest: program_xml_tag)

lemma add_program_shape:
  assumes run: "add_program lib (rev (map channel_xml cs) @ progs, err) program = Inr st'"
    and progs: "\<forall>p \<in> set progs. tag p = ''programme''"
    and lib: "finds_channels lib"
    and quote: "CHR 0x22 \<notin> set (channel_of (fields_of program))"
  shows "\<exists>p. fst st' = rev (map channel_xml (cs @ new_channels (map channel_of cs) [fields_of program]))
                 @ progs @ [p] \<and> programme_of lib program p"
proof -
  let ?d = "fields_of program"
  have found: "etree_find lib (channel_path (telerama_to_xmltv_id (?d ! 0))) (rev (map channel_xml cs) @ progs)
      = Inr (find_channel (rev (map channel_xml cs) @ progs) (telerama_to_xmltv_id (?d ! 0)))"
    using lib quote unfolding finds_channels_def channel_of_def by blast
  from run obtain p e where pe: "program_xml lib ?d = Inr (p, e)"
    and st': "st' = ((if find_channel (rev (map channel_xml cs) @ progs) (telerama_to_xmltv_id (?d ! 0)) = None
                  then channel_xml ?d # (rev (map channel_xml cs) @ progs)
                  else rev (map channel_xml cs) @ progs) @ [p], err @ e)"
    unfolding add_program_def Let_def fst_conv snd_conv found
    by (auto split: if_splits sum.splits prod.splits)
  have "find_channel (rev (map channel_xml cs) @ progs) (telerama_to_xmltv_id (?d ! 0)) = None
        \<longleftrightarrow> channel_of ?d \<notin> set (map channel_of cs)"
    using find_channel_None[OF progs, of cs "channel_of ?d"] by (simp add: channel_of_def)
  with st' have "fst st' = rev (map channel_xml (cs @ new_channels (map channel_of cs) [?d])) @ progs @ [p]"
    by auto
  with pe show ?thesis unfolding programme_of_def by blast
qed

lemma add_programs_shape:
  assumes "add_programs lib (rev (map channel_xml cs) @ progs, err) programs = Inr st'"
    and "\<forall>p \<in> set progs. tag p = ''programme''"
    and "finds_channels lib"
    and "\<forall>program \<in> set programs. CHR 0x22 \<notin> set (channel_of (fields_of program))"
  shows "\<exists>ps. fst st' = rev (map channel_xml (cs @ new_channels (map channel_of cs) (map fields_of programs)))
                 @ progs @ ps \<and> list_all2 (programme_of lib) programs ps"
  using assms
proof (induction programs arbitrary: cs progs err)
  case Nil
  then show ?case by auto
next
  case (Cons program programs)
  from Cons.prems(1) obtain st1 where
    s1: "add_program lib (rev (map channel_xml cs) @ progs, err) program = Inr st1"
    and s2: "add_programs lib st1 programs = Inr st'"
    by (auto split: sum.splits)
  have q1: "CHR 0x22 \<notin> set (channel_of (fields_of program))" using Cons.prems(4) by simp
  have q2: "\<forall>program \<in> set programs. CHR 0x22 \<notin> set (channel_of (fields_of program))"
    using Cons.prems(4) by simp
  let ?cs1 = "cs @ new_channels (map channel_of cs) [fields_of program]"
  from add_program_shape[OF s1 Cons.prems(2) Cons.prems(3) q1] obtain p where
    p: "fst st1 = rev (map channel_xml ?cs1) @ progs @ [p]" "programme_of lib program p"
    by blast
  have tagp: "tag p = ''programme''" using p(2) program_xml_tag by (auto simp: programme_of_def)
  have s2': "add_programs lib (rev (map channel_xml ?cs1) @ (progs @ [p]), snd st1) programs = Inr st'"
    using s2 p(1) by (cases st1) simp
  have "\<forall>q \<in> set (progs @ [p]). tag q = ''programme''" using Cons.prems(2) tagp by auto
  from Cons.IH[OF s2' this Cons.prems(3) q2] obtain ps where
    ps: "fst st' = rev (map channel_xml (?cs1 @ new_channels (map channel_of ?cs1) (map fields_of programs)))
                 @ (progs @ [p]) @ ps" "list_all2 (programme_of lib) programs ps"
    by blast
  have "new_channels (map channel_of cs) (map fields_of (program # programs))
      = new_channels (map channel_of cs) [fields_of program]
        @ new_channels (map channel_of ?cs1) (map fields_of programs)"
  proof -
    have "new_channels (map channel_of (new_channels (map channel_of cs) [fields_of program]) @ map channel_of cs) (map fields_of programs)
        = new_channels (map channel_of ?cs1) (map fields_of programs)"
      by (rule new_channels_cong) auto
    then show ?thesis
      using new_channels_append[of "map channel_of cs" "[fields_of program]" "map fields_of programs"]
      by simp
  qed
  with ps p(2) show ?case
    by (intro exI[of _ "p # ps"]) simp
qed

lemma add_all_shape:
  assumes "add_all lib (rev (map channel_xml cs) @ progs, err) telerama_programs = Inr st'"
    and "\<forall>p \<in> set progs. tag p = ''programme''"
    and "finds_channels lib"
    and "\<forall>program \<in> set (concat telerama_programs). CHR 0x22 \<notin> set (channel_of (fields_of program))"
  shows "\<exists>ps. fst st' = rev (map channel_xml (cs @ new_channels (map channel_of cs)
                                  (map fields_of (concat telerama_programs))))
                 @ progs @ ps \<and> list_all2 (programme_of lib) (concat telerama_programs) ps"
  using assms
proof (induction telerama_programs arbitrary: cs progs err)
  case Nil
  then show ?case by auto
next
  case (Cons programs rest)
  from Cons.prems(1) obtain st1 where
    s1: "add_programs lib (rev (map channel_xml cs) @ progs, err) programs = Inr st1"
    and s2: "add_all lib st1 rest = Inr st'"
    by (auto split: sum.splits)
  have q1: "\<forall>program \<in> set programs. CHR 0x22 \<notin> set (channel_of (fields_of program))"
    using Cons.prems(4) by simp
  have q2: "\<forall>program \<in> set (concat rest). CHR 0x22 \<notin> set (channel_of (fields_of program))"
    using Cons.prems(4) by simp
  let ?cs1 = "cs @ new_channels (map channel_of cs) (map fields_of programs)"
  from add_programs_shape[OF s1 Cons.prems(2) Cons.prems(3) q1] obtain ps1 where
    p: "fst st1 = rev (map channel_xml ?cs1) @ progs @ ps1" "list_all2 (programme_of lib) programs ps1"
    by blast
  have tagp: "\<forall>q \<in> set ps1. tag q = ''programme''"
    using p(2) by (rule programme_tags)
  have s2': "add_all lib (rev (map channel_xml ?cs1) @ (progs @ ps1), snd st1) rest = Inr st'"
    using s2 p(1) by (cases st1) simp
  have "\<forall>q \<in> set (progs @ ps1). tag q = ''programme''" using Cons.prems(2) tagp by auto
  from Cons.IH[OF s2' this Cons.prems(3) q2] obtain ps where
    ps: "fst st' = rev (map channel_xml (?cs1 @ new_channels (map channel_of ?cs1) (map fields_of (concat rest))))
                 @ (progs @ ps1) @ ps" "list_all2 (programme_of lib) (concat rest) ps"
    by blast
  have "new_channels (map channel_of cs) (map fields_of (concat (programs # rest)))
      = new_channels (map channel_of cs) (map fields_of programs)
        @ new_channels (map channel_of ?cs1) (map fields_of (concat rest))"
  proof -
    have "new_channels (map channel_of (new_channels (map channel_of cs) (map fields_of programs)) @ map channel_of cs) (map fields_of (concat rest))
        = new_channels (map channel_of ?cs1) (map fields_of (concat rest))"
      by (rule new_channels_cong) auto
    then show ?thesis
      using new_channels_append[of "map channel_of cs" "map fields_of programs" "map fields_of (concat rest)"]
      by simp
  qed
  with ps p(2) show ?case
    by (intro exI[of _ "ps1 @ ps"]) (simp add: list_all2_appendI)
qed

lemma points_sub_inv_split:
  assumes na: "a \<notin> set sep" and nb: "b \<notin> set sep"
    and i: "i < length s" and m: "slice s i (i + length sep) = sep" and l0: "level = 0"
    and q: "points_sub_inv sep a b s (i + length sep) level [] (result @ [tmp]) r"
  shows "points_sub_inv sep a b s i level tmp result r"
  unfolding points_sub_inv_def
proof (intro impI ballI, elim conjE)
  fix p
  assume lv: "level = nesting_level a b s i" and jn: "join sep (result @ [tmp]) = take i s"
    and p: "p \<in> set (split_points (length sep) 0 r)"
  have le: "i + length sep \<le> length s" using m i by (simp add: slice_eq_iff)
  have lv': "level = nesting_level a b s (i + length sep)"
    using lv nesting_level_skip[OF m na nb] by simp
  have "take (i + length sep) s = take i s @ sep"
    using m by (simp add: take_add slice_def)
  then have jn': "join sep ((result @ [tmp]) @ [[]]) = take (i + length sep) s"
    using jn by (simp add: join_snoc2)
  have "p \<in> set (split_points (length sep) 0 ((result @ [tmp]) @ [[]])) \<or> occurs_at_level_zero sep a b s p"
    using q le lv' jn' p unfolding points_sub_inv_def by blast
  moreover have "length (join sep (result @ [tmp])) = i" using jn i by simp
  then have "split_points (length sep) 0 ((result @ [tmp]) @ [[]]) = split_points (length sep) 0 (result @ [tmp]) @ [i]"
    using split_points_snoc2[of sep "length sep" 0 result tmp "[]"] by simp
  moreover have "occurs_at_level_zero sep a b s i" using m l0 lv by (simp add: occurs_at_level_zero_def)
  ultimately show "p \<in> set (split_points (length sep) 0 (result @ [tmp])) \<or> occurs_at_level_zero sep a b s p"
    by auto
qed

lemma points_sub_inv_step:
  assumes ab: "a \<noteq> b"
    and i: "i < length s"
    and q: "points_sub_inv sep a b s (i + 1)
          (if slice s i (i + length [a]) = [a] then level + 1
           else if slice s i (i + length [b]) = [b] then level - 1 else level)
          (tmp @ [s ! i]) result r"
  shows "points_sub_inv sep a b s i level tmp result r"
  unfolding points_sub_inv_def
proof (intro impI ballI, elim conjE)
  fix p
  let ?l = "if slice s i (i + length [a]) = [a] then level + 1
           else if slice s i (i + length [b]) = [b] then level - 1 else level"
  assume lv: "level = nesting_level a b s i" and jn: "join sep (result @ [tmp]) = take i s"
    and p: "p \<in> set (split_points (length sep) 0 r)"
  have sa: "slice s i (i + length [a]) = [a] \<longleftrightarrow> s ! i = a" by (rule slice_single[OF i])
  have sb: "slice s i (i + length [b]) = [b] \<longleftrightarrow> s ! i = b" by (rule slice_single[OF i])
  have lv': "?l = nesting_level a b s (i + 1)"
    unfolding sa sb using nesting_level_Suc[OF i ab] lv by simp
  have jn': "join sep (result @ [tmp @ [s ! i]]) = take (i + 1) s"
    using jn i by (simp add: join_snoc_char take_Suc_conv_app_nth)
  have i1: "i + 1 \<le> length s" using i by simp
  have "p \<in> set (split_points (length sep) 0 (result @ [tmp @ [s ! i]])) \<or> occurs_at_level_zero sep a b s p"
    using q i1 lv' jn' p unfolding points_sub_inv_def by blast
  then show "p \<in> set (split_points (length sep) 0 (result @ [tmp])) \<or> occurs_at_level_zero sep a b s p"
    using split_points_last_irrelevant[of "length sep" 0 result "tmp @ [s ! i]" tmp] by simp
qed

lemma split_loop_points_sub:
  assumes sep: "sep \<noteq> []" and ab: "a \<noteq> b" and na: "a \<notin> set sep" and nb: "b \<notin> set sep"
  shows "\<exists>r. split_loop s sep [a] [b] i level tmp result = Some r \<and>
     points_sub_inv sep a b s i level tmp result r"
proof (rule split_loop_rule[OF sep])
  fix i :: nat and level :: int and tmp result
  assume "\<not> i < length s"
  then show "points_sub_inv sep a b s i level tmp result (result @ [tmp])"
    by (simp add: points_sub_inv_def)
next
  fix i :: nat and level :: int and tmp result r
  assume "i < length s" "slice s i (i + length sep) = sep" "level = 0"
    "points_sub_inv sep a b s (i + length sep) level [] (result @ [tmp]) r"
  then show "points_sub_inv sep a b s i level tmp result r"
    by (rule points_sub_inv_split[OF na nb])
next
  fix i :: nat and level :: int and tmp result r
  assume "i < length s" "\<not> (slice s i (i + length sep) = sep \<and> level = 0)"
    "points_sub_inv sep a b s (i + 1)
          (if slice s i (i + length [a]) = [a] then level + 1
           else if slice s i (i + length [b]) = [b] then level - 1 else level)
          (tmp @ [s ! i]) result r"
  then show "points_sub_inv sep a b s i level tmp result r"
    using points_sub_inv_step[OF ab] by blast
qed

lemma split_empty_separator_None:
  assumes "s \<noteq> []"
  shows "split_outside_delimiters s [] d1 d2 = None"
proof (cases "split_outside_delimiters s [] d1 d2")
  case (Some r)
  then show ?thesis
    using split_loop_empty_sep_Some[of s "[]" d1 d2 0 0 "[]" "[]" r] assms
    by (simp add: split_outside_delimiters_def)
qed simp

lemma split_empty_string: "split_outside_delimiters [] separator d1 d2 = Some [[]]"
  unfolding split_outside_delimiters_def by (subst split_loop.simps) simp

lemma between_matching_not_level_zero:
  assumes "balanced a b s" "matching_close a b s j k" "j < i" "i < k"
  shows "nesting_level a b s i \<noteq> 0"
proof -
  have "j \<le> length s" using assms(2) by (simp add: matching_close_def)
  then have "j \<in> set [0..<Suc (length s)]" by auto
  then have "0 \<le> nesting_level a b s j"
    using assms(1) unfolding balanced_def list_all_iff by blast
  moreover have "nesting_level a b s j < nesting_level a b s i"
  proof -
    have "i \<in> set [Suc j..<Suc k]" using assms(3,4) by auto
    then show ?thesis using assms(2) unfolding matching_close_def list_all_iff by blast
  qed
  ultimately show ?thesis by simp
qed




lemma new_channels_first:
  "d \<in> set (new_channels seen ds) \<Longrightarrow>
   channel_of d \<notin> set seen \<and> find (\<lambda>x. channel_of x = channel_of d) ds = Some d"
proof (induction ds arbitrary: seen)
  case Nil
  then show ?case by simp
next
  case (Cons d0 ds)
  show ?case
  proof (cases "channel_of d0 \<in> set seen")
    case True
    with Cons.prems have "d \<in> set (new_channels seen ds)" by simp
    from Cons.IH[OF this] True show ?thesis by auto
  next
    case False
    show ?thesis
    proof (cases "d = d0")
      case True
      then show ?thesis using False by simp
    next
      case ne: False
      with Cons.prems False have "d \<in> set (new_channels (channel_of d0 # seen) ds)" by simp
      from Cons.IH[OF this] show ?thesis by auto
    qed
  qed
qed

lemma new_channels_distinct: "distinct (map channel_of (new_channels seen ds))"
proof (induction ds arbitrary: seen)
  case Nil
  then show ?case by simp
next
  case (Cons d0 ds)
  have "channel_of d0 \<notin> set (map channel_of (new_channels (channel_of d0 # seen) ds))"
  proof
    assume "channel_of d0 \<in> set (map channel_of (new_channels (channel_of d0 # seen) ds))"
    then obtain d where "d \<in> set (new_channels (channel_of d0 # seen) ds)" "channel_of d = channel_of d0"
      by auto
    with new_channels_first[of d "channel_of d0 # seen" ds] show False by simp
  qed
  then show ?case using Cons.IH by simp
qed


lemma channel_id_channel_xml: "channel_id (channel_xml d) = Some (channel_of d)"
  by (simp add: channel_id_def channel_xml_def channel_of_def)

lemma write_xmltv_data_shape:
  assumes "write_xmltv_data lib telerama_programs = Inr (doc, err)"
    and "finds_channels lib"
    and "\<forall>program \<in> set (concat telerama_programs). CHR 0x22 \<notin> set (channel_of (fields_of program))"
  shows "\<exists>ps. children doc =
            rev (map channel_xml (new_channels [] (map fields_of (concat telerama_programs)))) @ ps
          \<and> list_all2 (programme_of lib) (concat telerama_programs) ps"
proof -
  from assms(1) obtain st where st: "add_all lib ([], []) telerama_programs = Inr st"
    and doc: "children doc = fst st"
    by (auto simp: write_xmltv_data_def split: sum.splits prod.splits)
  have "add_all lib (rev (map channel_xml []) @ [], []) telerama_programs = Inr st"
    using st by simp
  from add_all_shape[OF this _ assms(2) assms(3)] doc show ?thesis by simp
qed



lemma filter_channels:
  assumes "\<forall>p \<in> set ps. tag p = ''programme''"
  shows "filter (\<lambda>e. tag e = ''channel'') (map channel_xml cs @ ps) = map channel_xml cs"
proof -
  have "filter (\<lambda>e. tag e = ''channel'') ps = []" using assms by (auto simp: filter_empty_conv)
  moreover have "filter (\<lambda>e. tag e = ''channel'') (map channel_xml cs) = map channel_xml cs"
    by (induction cs) (auto simp: channel_xml_def)
  ultimately show ?thesis by simp
qed

lemma channel_declared_once:
  assumes "write_xmltv_data lib telerama_programs = Inr (doc, err)"
    and "finds_channels lib"
    and "\<forall>program \<in> set (concat telerama_programs). CHR 0x22 \<notin> set (channel_of (fields_of program))"
  shows "distinct (map channel_id (filter (\<lambda>e. tag e = ''channel'') (children doc)))
       \<and> (\<forall>c \<in> set (children doc). tag c = ''channel'' \<longrightarrow>
            (\<exists>d. find (\<lambda>x. Some (channel_of x) = channel_id c)
                       (map fields_of (concat telerama_programs)) = Some d
                 \<and> c = channel_xml d))"
proof -
  let ?ds = "map fields_of (concat telerama_programs)"
  let ?new = "new_channels [] ?ds"
  from write_xmltv_data_shape[OF assms] obtain ps where
    ps: "children doc = rev (map channel_xml ?new) @ ps"
        "list_all2 (programme_of lib) (concat telerama_programs) ps"
    by blast
  have tags: "\<forall>p \<in> set ps. tag p = ''programme''" using ps(2) by (rule programme_tags)
  have flt: "filter (\<lambda>e. tag e = ''channel'') (children doc) = map channel_xml (rev ?new)"
    using filter_channels[OF tags, of "rev ?new"] ps(1) by (simp add: rev_map)
  have ids: "map channel_id (map channel_xml (rev ?new)) = map Some (rev (map channel_of ?new))"
    by (simp add: channel_id_channel_xml comp_def rev_map)
  have "distinct (map Some (rev (map channel_of ?new)))"
    using new_channels_distinct[of "[]" ?ds] by (simp add: distinct_map)
  then have d: "distinct (map channel_id (filter (\<lambda>e. tag e = ''channel'') (children doc)))"
    using flt ids by simp
  have "\<exists>d. find (\<lambda>x. Some (channel_of x) = channel_id c) ?ds = Some d \<and> c = channel_xml d"
    if c: "c \<in> set (children doc)" "tag c = ''channel''" for c
  proof -
    from c tags ps(1) have "c \<in> set (map channel_xml ?new)" by auto
    then obtain d where dn: "d \<in> set ?new" and cd: "c = channel_xml d" by auto
    from new_channels_first[OF dn] have "find (\<lambda>x. channel_of x = channel_of d) ?ds = Some d" by simp
    then have "find (\<lambda>x. Some (channel_of x) = channel_id c) ?ds = Some d"
      using cd by (simp add: channel_id_channel_xml)
    with cd show ?thesis by blast
  qed
  with d show ?thesis by blast
qed

lemma timing_cases:
  assumes "timing lib data = Inr (start, stop)"
    and "strptime lib (data ! 12 @ '' '' @ data ! 3) ''%d/%m/%Y %H:%M:%S'' = Some n1"
    and "strptime lib (data ! 12 @ '' '' @ data ! 4) ''%d/%m/%Y %H:%M:%S'' = Some n2"
  shows "start = localize lib n1
       \<and> stop = (if instant (localize lib n1) > instant (localize lib n2)
                 then (localize lib n2)\<lparr>ordinal := ordinal (localize lib n2) + 1\<rparr>
                 else localize lib n2)"
  using assms
  by (auto simp: timing_def Let_def add_one_day_def split: if_splits option.splits)

lemma program_xml_timing:
  assumes "program_xml lib data = Inr (p, err)"
  shows "\<exists>start stop. timing lib data = Inr (start, stop)
          \<and> map_of (attrib p) ''start'' = Some (strftime lib ''%Y%m%d%H%M%S %z'' start)
          \<and> map_of (attrib p) ''stop'' = Some (strftime lib ''%Y%m%d%H%M%S %z'' stop)"
  using assms
  by (auto simp: program_xml_def split: sum.splits option.splits prod.splits)

lemma night_record_runs:
  "\<not> isl (program_xml example_lib
            (fields_of (record_with_times ''01/03/2024'' ''23:00:00'' ''01:00:00'')))"
  by code_simp

lemma night_record_start:
  "strptime example_lib
     (fields_of (record_with_times ''01/03/2024'' ''23:00:00'' ''01:00:00'') ! 12 @ '' ''
      @ fields_of (record_with_times ''01/03/2024'' ''23:00:00'' ''01:00:00'') ! 3)
     ''%d/%m/%Y %H:%M:%S'' = Some (738946, 82800)"
  by code_simp

lemma night_record_stop:
  "strptime example_lib
     (fields_of (record_with_times ''01/03/2024'' ''23:00:00'' ''01:00:00'') ! 12 @ '' ''
      @ fields_of (record_with_times ''01/03/2024'' ''23:00:00'' ''01:00:00'') ! 4)
     ''%d/%m/%Y %H:%M:%S'' = Some (738946, 3600)"
  by code_simp

lemma credits_xml_tags: "credits_xml data = Some cs \<Longrightarrow> \<forall>e \<in> set cs. tag e = ''credits''"
  by (auto simp: credits_xml_def Let_def split: if_splits option.splits)

lemma episodenum_xml_tags: "episodenum_xml data = Inr es \<Longrightarrow> \<forall>e \<in> set es. tag e = ''episode-num''"
  by (auto simp: episodenum_xml_def split: option.splits)

lemma no_category_in:
  "filter (\<lambda>e. tag e = ''category'') (subtitle_xml data) = []"
  "filter (\<lambda>e. tag e = ''category'') (desc_xml data) = []"
  "filter (\<lambda>e. tag e = ''category'') (date_xml data) = []"
  "filter (\<lambda>e. tag e = ''category'') (icon_xml lib start data) = []"
  "filter (\<lambda>e. tag e = ''category'') (audio_xml data) = []"
  "filter (\<lambda>e. tag e = ''category'') (previously_shown_xml data) = []"
  "filter (\<lambda>e. tag e = ''category'') (premiere_xml data) = []"
  "filter (\<lambda>e. tag e = ''category'') (subtitles_xml data) = []"
  "filter (\<lambda>e. tag e = ''category'') (rating_xml data) = []"
  "filter (\<lambda>e. tag e = ''category'') (starrating_xml data) = []"
  "filter (\<lambda>e. tag e = ''category'') (review_xml data) = []"
  by (simp_all add: subtitle_xml_def desc_xml_def date_xml_def icon_xml_def audio_xml_def
        previously_shown_xml_def premiere_xml_def subtitles_xml_def rating_xml_def
        starrating_xml_def review_xml_def simple_def Let_def split: option.splits)

lemma category_xml_all: "filter (\<lambda>e. tag e = ''category'') (category_xml data) = category_xml data"
  by (simp add: category_xml_def Let_def split: option.splits)

lemma program_xml_children:
  assumes "program_xml lib data = Inr (p, err)"
  shows "\<exists>start credits episodenum.
           credits_xml data = Some credits \<and> episodenum_xml data = Inr episodenum
         \<and> children p = [simple ''title'' (data ! 2)] @ subtitle_xml data @ desc_xml data
              @ credits @ date_xml data @ category_xml data
              @ icon_xml lib start data @ episodenum
              @ audio_xml data @ previously_shown_xml data @ premiere_xml data
              @ subtitles_xml data @ rating_xml data @ starrating_xml data
              @ review_xml data"
  using assms
  by (auto simp: program_xml_def split: sum.splits option.splits prod.splits)

lemma genre_record_runs:
  "\<not> isl (program_xml example_lib
            (fields_of (record_with_details (lines [''Genre : Policier'', ''En 4:3'']))))"
  by code_simp

lemma genre_record_values:
  "fst (translate_categories ''Film'') = ''Movie / Drama''
   \<and> fields_of (record_with_details (lines [''Genre : Policier'', ''En 4:3''])) ! 5 = ''Film''
   \<and> label_value ''Genre''
        (fields_of (record_with_details (lines [''Genre : Policier'', ''En 4:3''])) ! 7)
     = Some ''Policier''"
  by code_simp

lemma same_genre_record_runs:
  "\<not> isl (program_xml example_lib
            (fields_of (record_with_details (lines [''Genre : Film'', ''En 4:3'']))))"
  by code_simp

lemma same_genre_record_values:
  "fst (translate_categories ''Film'') = ''Movie / Drama''
   \<and> fields_of (record_with_details (lines [''Genre : Film'', ''En 4:3''])) ! 5 = ''Film''
   \<and> label_value ''Genre''
        (fields_of (record_with_details (lines [''Genre : Film'', ''En 4:3''])) ! 7)
     = Some ''Film''"
  by code_simp

section \<open>Properties of the nested-delimiter split\<close>

text \<open>
  Claim C10, as stated: for every input, joining the segments returned by the split with
  the separator gives the input string back. With an empty separator and a non-empty
  string the loop of \<open>split_outside_delimiters\<close> appends the empty segment for ever and
  never advances: the split returns nothing, here on the string \<open>a\<close>.
\<close>

theorem split_empty_separator_diverges:
  "split_outside_delimiters ''a'' [] ''('' '')'' = None"
proof (cases "split_outside_delimiters ''a'' [] ''('' '')''")
  case (Some r)
  then show ?thesis
    using split_loop_empty_sep_Some[of "''a''" "[]" "''(''" "'')''" 0 0 "[]" "[]" r]
    by (simp add: split_outside_delimiters_def)
qed simp

text \<open>
  Claim C10, amended: for every non-empty separator, every string and every pair of
  delimiters (balanced in the string or not), the split returns, and joining the returned
  segments with the separator gives the input string back.
\<close>

theorem split_join_lossless:
  "separator \<noteq> [] \<Longrightarrow>
   \<exists>r. split_outside_delimiters s separator d1 d2 = Some r \<and> join separator r = s"
  using split_loop_lossless[of separator s d1 d2 0 0 "[]" "[]"]
  by (simp add: split_outside_delimiters_def)

theorem split_join_lossless_witness:
  "'', '' \<noteq> [] \<and>
   (\<exists>r. split_outside_delimiters ''a), (b, c), d'' '', '' ''('' '')'' = Some r \<and>
        join '', '' r = ''a), (b, c), d'')"
  using split_join_lossless[of "'', ''" "''a), (b, c), d''" "''(''" "'')''"] by simp

text \<open>
  Claim C3, as stated: for every input the split yields at least one element, and a
  separator between an open delimiter and its matching close never causes a split.
  With the arguments of the program, \<open>", "\<close>, \<open>(\<close> and \<open>)\<close>, the string
  \<open>a), (b, c), d\<close> is split at index 6, inside the pair opened at 4 and closed at 9: the
  unmatched close before it has brought the counter to zero there. And with an empty
  separator the loop never advances on a non-empty string, so nothing is yielded, here
  on \<open>a, b\<close>.
\<close>

theorem split_inside_matching_pair:
  "split_outside_delimiters ''a), (b, c), d'' '', '' ''('' '')'' = Some [''a), (b'', ''c), d'']
   \<and> split_points 2 0 [''a), (b'', ''c), d''] = [6]
   \<and> slice ''a), (b, c), d'' 6 8 = '', ''
   \<and> matching_close CHR ''('' CHR '')'' ''a), (b, c), d'' 4 9
   \<and> split_outside_delimiters ''a, b'' [] ''('' '')'' = None"
proof (intro conjI)
  show "split_outside_delimiters ''a), (b, c), d'' '', '' ''('' '')'' = Some [''a), (b'', ''c), d'']"
    by code_simp
  show "split_points 2 0 [''a), (b'', ''c), d''] = [6]" by simp
  show "slice ''a), (b, c), d'' 6 8 = '', ''" by (simp add: slice_def)
  show "matching_close CHR ''('' CHR '')'' ''a), (b, c), d'' 4 9" by code_simp
  show "split_outside_delimiters ''a, b'' [] ''('' '')'' = None"
    by (rule split_empty_separator_None) simp
qed

text \<open>
  Claim C3, amended. For every non-empty separator and every string the split returns a
  non-empty list whose last element is the final (possibly empty) segment, the text after
  the last split point. When the delimiters are two distinct single characters that do
  not occur in the separator, every split point is an occurrence of the separator at
  nesting level zero; so when the delimiters are balanced, a position strictly between
  an open delimiter and its matching close is never a split point. When moreover no
  proper prefix of the separator is also a suffix of it (as for \<open>", "\<close>), the split
  points are exactly the occurrences of the separator at nesting level zero: \<open>k\<close> of them
  give \<open>k + 1\<close> segments. With an empty separator nothing is returned for a non-empty
  string; the empty string gives the one empty segment whatever the separator.
\<close>

theorem split_segments:
  "(separator \<noteq> [] \<longrightarrow>
      (\<exists>r. split_outside_delimiters s separator d1 d2 = Some r \<and> r \<noteq> [] \<and>
         last r = drop (final_start (length separator) r) s \<and>
         (\<forall>a b. d1 = [a] \<and> d2 = [b] \<and> a \<noteq> b \<and> a \<notin> set separator \<and> b \<notin> set separator \<longrightarrow>
            (\<forall>p \<in> set (split_points (length separator) 0 r). occurs_at_level_zero separator a b s p) \<and>
            (\<forall>j k i. balanced a b s \<and> matching_close a b s j k \<and> j < i \<and> i < k \<longrightarrow>
               i \<notin> set (split_points (length separator) 0 r)) \<and>
            (unbordered separator \<longrightarrow>
               split_points (length separator) 0 r = level_zero_occurrences separator a b s \<and>
               length r = Suc (length (level_zero_occurrences separator a b s))))))
   \<and> (separator = [] \<and> s \<noteq> [] \<longrightarrow> split_outside_delimiters s separator d1 d2 = None)
   \<and> split_outside_delimiters [] separator d1 d2 = Some [[]]"
proof (intro conjI impI)
  assume sep: "separator \<noteq> []"
  obtain r where r: "split_loop s separator d1 d2 0 0 [] [] = Some r" and ne: "r \<noteq> []"
    using split_loop_nonempty[OF sep] by blast
  have jn: "join separator r = s"
    using split_loop_lossless[OF sep, of s d1 d2 0 0 "[]" "[]"] r by simp
  have fin: "last r = drop (final_start (length separator) r) s"
    using last_segment_gen[OF ne refl, of separator 0] jn by (simp add: final_start_def)
  have pts: "(\<forall>p \<in> set (split_points (length separator) 0 r). occurs_at_level_zero separator a b s p) \<and>
            (\<forall>j k i. balanced a b s \<and> matching_close a b s j k \<and> j < i \<and> i < k \<longrightarrow>
               i \<notin> set (split_points (length separator) 0 r)) \<and>
            (unbordered separator \<longrightarrow>
               split_points (length separator) 0 r = level_zero_occurrences separator a b s \<and>
               length r = Suc (length (level_zero_occurrences separator a b s)))"
    if h: "d1 = [a]" "d2 = [b]" "a \<noteq> b" "a \<notin> set separator" "b \<notin> set separator" for a b
  proof (intro conjI impI allI)
    have "points_sub_inv separator a b s 0 0 [] [] r"
      using split_loop_points_sub[OF sep h(3,4,5), of s 0 0 "[]" "[]"] r h(1,2) by simp
    then show occ: "\<forall>p \<in> set (split_points (length separator) 0 r). occurs_at_level_zero separator a b s p"
      by (simp add: points_sub_inv_def nesting_level_def)
    fix j k i
    assume "balanced a b s \<and> matching_close a b s j k \<and> j < i \<and> i < k"
    then have "nesting_level a b s i \<noteq> 0" using between_matching_not_level_zero by blast
    then show "i \<notin> set (split_points (length separator) 0 r)"
      using occ by (auto simp: occurs_at_level_zero_def)
  next
    assume ub: "unbordered separator"
    have "points_inv separator a b s 0 0 [] [] r"
      using split_loop_points[OF sep h(3,4,5) ub, of s 0 0 "[]" "[]"] r h(1,2) by simp
    then show eq: "split_points (length separator) 0 r = level_zero_occurrences separator a b s"
      by (simp add: points_inv_def level_zero_occurrences_def nesting_level_def)
    have "length r = Suc (length (split_points (length separator) 0 r))"
      using ne by (cases r) (simp_all add: length_split_points)
    with eq show "length r = Suc (length (level_zero_occurrences separator a b s))" by simp
  qed
  show "\<exists>r. split_outside_delimiters s separator d1 d2 = Some r \<and> r \<noteq> [] \<and>
         last r = drop (final_start (length separator) r) s \<and>
         (\<forall>a b. d1 = [a] \<and> d2 = [b] \<and> a \<noteq> b \<and> a \<notin> set separator \<and> b \<notin> set separator \<longrightarrow>
            (\<forall>p \<in> set (split_points (length separator) 0 r). occurs_at_level_zero separator a b s p) \<and>
            (\<forall>j k i. balanced a b s \<and> matching_close a b s j k \<and> j < i \<and> i < k \<longrightarrow>
               i \<notin> set (split_points (length separator) 0 r)) \<and>
            (unbordered separator \<longrightarrow>
               split_points (length separator) 0 r = level_zero_occurrences separator a b s \<and>
               length r = Suc (length (level_zero_occurrences separator a b s))))"
    unfolding split_outside_delimiters_def using r ne fin pts by blast
next
  assume "separator = [] \<and> s \<noteq> []"
  then show "split_outside_delimiters s separator d1 d2 = None"
    using split_empty_separator_None by simp
next
  show "split_outside_delimiters [] separator d1 d2 = Some [[]]" by (rule split_empty_string)
qed

theorem split_segments_witness:
  "'', '' \<noteq> [] \<and> unbordered '', ''
   \<and> balanced CHR ''('' CHR '')'' ''A (b, c), D''
   \<and> matching_close CHR ''('' CHR '')'' ''A (b, c), D'' 2 7
   \<and> (\<exists>r. split_outside_delimiters ''A (b, c), D'' '', '' ''('' '')'' = Some r \<and> r \<noteq> []
          \<and> split_points 2 0 r = [8] \<and> occurs_at_level_zero '', '' CHR ''('' CHR '')'' ''A (b, c), D'' 8
          \<and> length r = 2 \<and> 4 \<notin> set (split_points 2 0 r))
   \<and> split_outside_delimiters ''ab'' [] ''('' '')'' = None"
proof -
  let ?s = "''A (b, c), D''"
  have ub: "unbordered '', ''" by (simp add: unbordered_def)
  have bal: "balanced CHR ''('' CHR '')'' ?s" by code_simp
  have mat: "matching_close CHR ''('' CHR '')'' ?s 2 7" by code_simp
  have lz: "level_zero_occurrences '', '' CHR ''('' CHR '')'' ?s = [8]"
    by code_simp
  have sep: "'', '' \<noteq> []" by simp
  have l2: "length '', '' = 2" by simp
  from split_segments[of "'', ''" ?s "''(''" "'')''", THEN conjunct1, rule_format, OF sep]
  obtain r where r: "split_outside_delimiters ?s '', '' ''('' '')'' = Some r" and ne: "r \<noteq> []"
    and all: "\<forall>a b. ''('' = [a] \<and> '')'' = [b] \<and> a \<noteq> b \<and> a \<notin> set '', '' \<and> b \<notin> set '', '' \<longrightarrow>
            (\<forall>p \<in> set (split_points (length '', '') 0 r). occurs_at_level_zero '', '' a b ?s p) \<and>
            (\<forall>j k i. balanced a b ?s \<and> matching_close a b ?s j k \<and> j < i \<and> i < k \<longrightarrow>
               i \<notin> set (split_points (length '', '') 0 r)) \<and>
            (unbordered '', '' \<longrightarrow>
               split_points (length '', '') 0 r = level_zero_occurrences '', '' a b ?s \<and>
               length r = Suc (length (level_zero_occurrences '', '' a b ?s)))"
    by (elim exE conjE)
  have h: "''('' = [CHR ''(''] \<and> '')'' = [CHR '')''] \<and> CHR ''('' \<noteq> CHR '')''
      \<and> CHR ''('' \<notin> set '', '' \<and> CHR '')'' \<notin> set '', ''" by simp
  note c = all[rule_format, OF h]
  note c1 = c[THEN conjunct1]
  note c2 = c[THEN conjunct2, THEN conjunct1]
  note c3 = c[THEN conjunct2, THEN conjunct2, rule_format, OF ub]
  have sp0: "split_points (length '', '') 0 r = [8]"
    using c3[THEN conjunct1] unfolding lz .
  have len: "length r = Suc (length [8::nat])"
    using c3[THEN conjunct2] unfolding lz .
  have sp: "split_points 2 0 r = [8]" using sp0 unfolding l2 .
  have len2: "length r = 2" using len by simp
  have "8 \<in> set (split_points (length '', '') 0 r)" unfolding sp0 by simp
  with c1 have o: "occurs_at_level_zero '', '' CHR ''('' CHR '')'' ?s 8" by (rule bspec)
  have b4: "balanced CHR ''('' CHR '')'' ?s \<and> matching_close CHR ''('' CHR '')'' ?s 2 7 \<and> (2::nat) < 4 \<and> (4::nat) < 7"
    using bal mat by simp
  have n4: "4 \<notin> set (split_points 2 0 r)"
    using c2[rule_format, OF b4] unfolding l2 .
  have e: "split_outside_delimiters ''ab'' [] ''('' '')'' = None"
    using split_segments[of "[]" "''ab''" "''(''" "'')''", THEN conjunct2, THEN conjunct1] by simp
  have ex: "\<exists>r. split_outside_delimiters ?s '', '' ''('' '')'' = Some r \<and> r \<noteq> []
          \<and> split_points 2 0 r = [8] \<and> occurs_at_level_zero '', '' CHR ''('' CHR '')'' ?s 8
          \<and> length r = 2 \<and> 4 \<notin> set (split_points 2 0 r)"
    by (rule exI[of _ r]) (intro conjI r ne sp o len2 n4)
  show ?thesis by (intro conjI sep ub bal mat ex e)
qed

section \<open>Properties of the channel identifier mapping\<close>

text \<open>
  Claim C9, as stated: converting any native identifier to the public identifier and back
  gives the native identifier again. The way back removes every occurrence of the suffix,
  so a native identifier that contains the suffix itself does not come back.
\<close>

theorem channel_id_round_trip_fails:
  "xmltv_to_telerama_id (telerama_to_xmltv_id ''a.tv.telerama.fr'') = ''a'' \<and>
   xmltv_to_telerama_id (telerama_to_xmltv_id ''a.tv.telerama.fr'') \<noteq> ''a.tv.telerama.fr''"
  by (simp add: xmltv_to_telerama_id_def telerama_to_xmltv_id_def replace_str.simps)

text \<open>
  Claim C9, amended: for every native identifier that does not contain the suffix
  \<open>.tv.telerama.fr\<close>, converting to the public identifier and back gives the native
  identifier, and conversely the public identifier made from it survives the way back and
  forth.
\<close>

theorem channel_id_round_trip:
  assumes "\<not> sublist ''.tv.telerama.fr'' c"
  shows "xmltv_to_telerama_id (telerama_to_xmltv_id c) = c \<and>
         telerama_to_xmltv_id (xmltv_to_telerama_id (telerama_to_xmltv_id c)) = telerama_to_xmltv_id c"
proof -
  have "replace_str ''.tv.telerama.fr'' [] (c @ ''.tv.telerama.fr'') = c"
    using replace_append_suffix[OF unbordered_suffix _ assms] by simp
  then show ?thesis by (simp add: xmltv_to_telerama_id_def telerama_to_xmltv_id_def)
qed

theorem channel_id_round_trip_witness:
  "\<not> sublist ''.tv.telerama.fr'' ''192'' \<and>
   xmltv_to_telerama_id (telerama_to_xmltv_id ''192'') = ''192'' \<and>
   telerama_to_xmltv_id (xmltv_to_telerama_id (telerama_to_xmltv_id ''192'')) = ''192.tv.telerama.fr''"
proof -
  have h: "\<not> sublist ''.tv.telerama.fr'' ''192''"
    by (auto simp: sublist_def dest: arg_cong[where f = length])
  from channel_id_round_trip[OF h] h show ?thesis by (simp add: telerama_to_xmltv_id_def)
qed

section \<open>Properties of the document\<close>




text \<open>
  Claim C8: every channel identifier gives at most one channel element, with the display
  name seen first. The program looks for the channel before it inserts one, but it pastes
  the identifier into the path without escaping. Two records with the native identifier
  \<open>x"]/y[@z="\<close> and the display names \<open>One\<close> and \<open>Two\<close> make \<open>find\<close> read the path
  \<open>channel[@id="x"]/y[@z=".tv.telerama.fr"]\<close>, which finds nothing: the document has two
  channel elements with the same identifier, and both display names. Without a double
  quote in the identifiers the claim holds, \<open>channel_declared_once\<close>.
\<close>

theorem channel_declared_twice:
  "document_channels (write_xmltv_data example_lib
       [[example_record quoted_id ''One'', example_record quoted_id ''Two'']])
     = [Some (quoted_id @ ''.tv.telerama.fr''), Some (quoted_id @ ''.tv.telerama.fr'')]
   \<and> document_display_names (write_xmltv_data example_lib
       [[example_record quoted_id ''One'', example_record quoted_id ''Two'']])
     = [[Some ''Two''], [Some ''One'']]
   \<and> channel_path (quoted_id @ ''.tv.telerama.fr'')
     = ''channel[@id='' @ [CHR 0x22] @ ''x'' @ [CHR 0x22] @ '']/y[@z='' @ [CHR 0x22]
         @ ''.tv.telerama.fr'' @ [CHR 0x22] @ '']''"
  by code_simp

section \<open>Properties of the mapper\<close>

text \<open>
  Claim C1: a details pattern that does not match only leaves its attribute out and never
  fails the record. The other blocks test their match (\<open>if m:\<close>); the video block reads
  \<open>m.group(1)\<close> of the aspect pattern without a test. A record whose details block has no
  line starting with \<open>En 16:9\<close> or \<open>En 4:3\<close> ends the run with AttributeError, and the same
  record with the line \<open>En 16:9\<close> is processed.
\<close>

theorem record_without_aspect_fails:
  "write_xmltv_data example_lib [[record_with_details ''Sous-titre : Le retour'']]
     = Inl AttributeError
   \<and> re_search aspect_re ''Sous-titre : Le retour'' = None
   \<and> \<not> isl (write_xmltv_data example_lib
              [[record_with_details (lines [''Sous-titre : Le retour'', ''En 16:9''])]])"
  by code_simp

text \<open>
  Claim C2, as stated: one day is added to stop whenever stop is less than or equal to
  start, so that stop is after start. The program tests \<open>start > stop\<close>: with equal start
  and stop times nothing is added and stop equals start. The two instants are compared
  with their offsets from UTC and the day is added on the wall clock: on the day the
  clocks go back, from 23:45 (\<open>+01:00\<close>) to 00:30 (\<open>+02:00\<close>), stop plus one day is still
  before start.
\<close>

theorem stop_equal_to_start:
  "timing example_lib (fields_of (record_with_times ''01/03/2024'' ''20:00:00'' ''20:00:00''))
     = Inr (\<lparr>ordinal = 738946, second_of_day = 72000, utcoffset = 3600\<rparr>,
            \<lparr>ordinal = 738946, second_of_day = 72000, utcoffset = 3600\<rparr>)
   \<and> \<not> isl (program_xml example_lib
               (fields_of (record_with_times ''01/03/2024'' ''20:00:00'' ''20:00:00'')))
   \<and> timing autumn_lib (fields_of (record_with_times ''27/10/2024'' ''23:45:00'' ''00:30:00''))
     = Inr (\<lparr>ordinal = 739186, second_of_day = 85500, utcoffset = 3600\<rparr>,
            \<lparr>ordinal = 739187, second_of_day = 1800, utcoffset = 7200\<rparr>)
   \<and> instant \<lparr>ordinal = 739187, second_of_day = 1800, utcoffset = 7200\<rparr>
       < instant \<lparr>ordinal = 739186, second_of_day = 85500, utcoffset = 3600\<rparr>"
  by code_simp

text \<open>
  Claim C2, amended: for every programme element built, start is the date of field 12
  with the time of field 3 and stop is the same date with the time of field 4, both with
  their offset in Paris; one day is added to stop exactly when the stop time is before the
  start time. When both times have the same offset, stop is not before start, and it is
  equal to start exactly when the two times are equal.
\<close>

theorem stop_not_before_start:
  assumes "program_xml lib data = Inr (p, err)"
    and "strptime lib (data ! 12 @ '' '' @ data ! 3) ''%d/%m/%Y %H:%M:%S'' = Some (day, s1)"
    and "strptime lib (data ! 12 @ '' '' @ data ! 4) ''%d/%m/%Y %H:%M:%S'' = Some (day, s2)"
    and "0 \<le> s1" and "s1 < 86400" and "0 \<le> s2" and "s2 < 86400"
    and "paris_offset lib (day, s1) = paris_offset lib (day, s2)"
  shows "\<exists>start stop. timing lib data = Inr (start, stop)
          \<and> map_of (attrib p) ''start'' = Some (strftime lib ''%Y%m%d%H%M%S %z'' start)
          \<and> map_of (attrib p) ''stop'' = Some (strftime lib ''%Y%m%d%H%M%S %z'' stop)
          \<and> start = localize lib (day, s1)
          \<and> stop = \<lparr>ordinal = (if s2 < s1 then day + 1 else day), second_of_day = s2,
                    utcoffset = paris_offset lib (day, s2)\<rparr>
          \<and> instant start \<le> instant stop
          \<and> (instant start = instant stop \<longleftrightarrow> s1 = s2)"
proof -
  from program_xml_timing[OF assms(1)] obtain start stop where
    t: "timing lib data = Inr (start, stop)"
    and a: "map_of (attrib p) ''start'' = Some (strftime lib ''%Y%m%d%H%M%S %z'' start)"
           "map_of (attrib p) ''stop'' = Some (strftime lib ''%Y%m%d%H%M%S %z'' stop)"
    by blast
  note c = timing_cases[OF t assms(2) assms(3)]
  have gt: "instant (localize lib (day, s1)) > instant (localize lib (day, s2)) \<longleftrightarrow> s2 < s1"
    using assms(8) by (simp add: instant_def localize_def)
  have start: "start = localize lib (day, s1)" using c by simp
  have stop: "stop = \<lparr>ordinal = (if s2 < s1 then day + 1 else day), second_of_day = s2,
                    utcoffset = paris_offset lib (day, s2)\<rparr>"
    using c gt by (simp add: localize_def)
  have le: "instant start \<le> instant stop"
    using assms(4-8) unfolding start stop by (simp add: instant_def localize_def)
  have eq: "instant start = instant stop \<longleftrightarrow> s1 = s2"
    using assms(4-8) unfolding start stop by (auto simp: instant_def localize_def)
  from t a start stop le eq show ?thesis by blast
qed

theorem stop_not_before_start_witness:
  "\<exists>p err. program_xml example_lib
              (fields_of (record_with_times ''01/03/2024'' ''23:00:00'' ''01:00:00'')) = Inr (p, err)
     \<and> (\<exists>start stop.
           timing example_lib (fields_of (record_with_times ''01/03/2024'' ''23:00:00'' ''01:00:00''))
             = Inr (start, stop)
         \<and> map_of (attrib p) ''start'' = Some (strftime example_lib ''%Y%m%d%H%M%S %z'' start)
         \<and> map_of (attrib p) ''stop'' = Some (strftime example_lib ''%Y%m%d%H%M%S %z'' stop)
         \<and> start = \<lparr>ordinal = 738946, second_of_day = 82800, utcoffset = 3600\<rparr>
         \<and> stop = \<lparr>ordinal = 738947, second_of_day = 3600, utcoffset = 3600\<rparr>
         \<and> instant start < instant stop)"
proof -
  let ?d = "fields_of (record_with_times ''01/03/2024'' ''23:00:00'' ''01:00:00'')"
  obtain p err where run: "program_xml example_lib ?d = Inr (p, err)"
    using night_record_runs by (cases "program_xml example_lib ?d") auto
  have off: "paris_offset example_lib (738946, 82800) = paris_offset example_lib (738946, 3600)"
    by (simp add: example_lib_def)
  from stop_not_before_start[OF run night_record_start night_record_stop _ _ _ _ off]
  obtain start stop where
    t: "timing example_lib ?d = Inr (start, stop)"
    and a1: "map_of (attrib p) ''start'' = Some (strftime example_lib ''%Y%m%d%H%M%S %z'' start)"
    and a2: "map_of (attrib p) ''stop'' = Some (strftime example_lib ''%Y%m%d%H%M%S %z'' stop)"
    and s1: "start = localize example_lib (738946, 82800)"
    and s2: "stop = \<lparr>ordinal = (if (3600::int) < 82800 then 738946 + 1 else 738946),
                      second_of_day = 3600, utcoffset = paris_offset example_lib (738946, 3600)\<rparr>"
    and le: "instant start \<le> instant stop"
    and ne: "instant start = instant stop \<longleftrightarrow> (82800::int) = 3600"
    by auto
  have s1': "start = \<lparr>ordinal = 738946, second_of_day = 82800, utcoffset = 3600\<rparr>"
    using s1 by (simp add: localize_def example_lib_def)
  have s2': "stop = \<lparr>ordinal = 738947, second_of_day = 3600, utcoffset = 3600\<rparr>"
    using s2 by (simp add: example_lib_def)
  have lt: "instant start < instant stop" using le ne by simp
  show ?thesis
    by (rule exI[of _ p], rule exI[of _ err], rule conjI[OF run], rule exI[of _ start],
        rule exI[of _ stop]) (intro conjI t a1 a2 s1' s2' lt)
qed

text \<open>
  Claim C6: the category elements of the programme element of a record are, in this
  order, the translation of the native category (field 5) when it is not empty, the
  native category with the language \<open>fr\<close> when field 5 is not empty, and the value that
  the pattern \<open>Genre :\<close> finds in the details block, with the language \<open>fr\<close>, when the pattern
  is found and the value is not field 5; no other block adds a category.
\<close>

theorem categories_emitted:
  assumes "program_xml lib data = Inr (p, err)"
  shows "filter (\<lambda>e. tag e = ''category'') (children p) =
      (if fst (translate_categories (data ! 5)) \<noteq> []
       then [Element ''category'' [] (Some (fst (translate_categories (data ! 5)))) []] else [])
    @ (if data ! 5 \<noteq> [] then [Element ''category'' [(''lang'', ''fr'')] (Some (data ! 5)) []]
       else [])
    @ (case label_value ''Genre'' (data ! 7) of
         Some g \<Rightarrow>
           if g \<noteq> data ! 5 then [Element ''category'' [(''lang'', ''fr'')] (Some g) []] else []
       | None \<Rightarrow> [])"
proof -
  from program_xml_children[OF assms] obtain start credits episodenum where
    c: "credits_xml data = Some credits" and e: "episodenum_xml data = Inr episodenum"
    and ch: "children p = [simple ''title'' (data ! 2)] @ subtitle_xml data @ desc_xml data
              @ credits @ date_xml data @ category_xml data
              @ icon_xml lib start data @ episodenum
              @ audio_xml data @ previously_shown_xml data @ premiere_xml data
              @ subtitles_xml data @ rating_xml data @ starrating_xml data
              @ review_xml data"
    by blast
  have 1: "filter (\<lambda>e. tag e = ''category'') credits = []"
    using credits_xml_tags[OF c] by (auto simp: filter_empty_conv)
  have 2: "filter (\<lambda>e. tag e = ''category'') episodenum = []"
    using episodenum_xml_tags[OF e] by (auto simp: filter_empty_conv)
  have "filter (\<lambda>e. tag e = ''category'') (children p) = category_xml data"
    unfolding ch by (simp add: no_category_in 1 2 category_xml_all simple_def)
  then show ?thesis by (simp add: category_xml_def Let_def)
qed

theorem categories_emitted_witness:
  "(\<exists>p err. program_xml example_lib
               (fields_of (record_with_details (lines [''Genre : Policier'', ''En 4:3''])))
             = Inr (p, err)
      \<and> filter (\<lambda>e. tag e = ''category'') (children p)
        = [Element ''category'' [] (Some ''Movie / Drama'') [],
           Element ''category'' [(''lang'', ''fr'')] (Some ''Film'') [],
           Element ''category'' [(''lang'', ''fr'')] (Some ''Policier'') []])
   \<and> (\<exists>p err. program_xml example_lib
               (fields_of (record_with_details (lines [''Genre : Film'', ''En 4:3''])))
             = Inr (p, err)
      \<and> filter (\<lambda>e. tag e = ''category'') (children p)
        = [Element ''category'' [] (Some ''Movie / Drama'') [],
           Element ''category'' [(''lang'', ''fr'')] (Some ''Film'') []])"
proof (rule conjI)
  let ?d = "fields_of (record_with_details (lines [''Genre : Policier'', ''En 4:3'']))"
  obtain p err where run: "program_xml example_lib ?d = Inr (p, err)"
    using genre_record_runs by (cases "program_xml example_lib ?d") auto
  note v = genre_record_values
  have "filter (\<lambda>e. tag e = ''category'') (children p)
        = [Element ''category'' [] (Some ''Movie / Drama'') [],
           Element ''category'' [(''lang'', ''fr'')] (Some ''Film'') [],
           Element ''category'' [(''lang'', ''fr'')] (Some ''Policier'') []]"
    using categories_emitted[OF run]
    unfolding v[THEN conjunct2, THEN conjunct1] v[THEN conjunct2, THEN conjunct2] v[THEN conjunct1]
    by simp
  with run show "\<exists>p err. program_xml example_lib ?d = Inr (p, err)
      \<and> filter (\<lambda>e. tag e = ''category'') (children p)
        = [Element ''category'' [] (Some ''Movie / Drama'') [],
           Element ''category'' [(''lang'', ''fr'')] (Some ''Film'') [],
           Element ''category'' [(''lang'', ''fr'')] (Some ''Policier'') []]"
    by (intro exI conjI)
next
  let ?d = "fields_of (record_with_details (lines [''Genre : Film'', ''En 4:3'']))"
  obtain p err where run: "program_xml example_lib ?d = Inr (p, err)"
    using same_genre_record_runs by (cases "program_xml example_lib ?d") auto
  note v = same_genre_record_values
  have "filter (\<lambda>e. tag e = ''category'') (children p)
        = [Element ''category'' [] (Some ''Movie / Drama'') [],
           Element ''category'' [(''lang'', ''fr'')] (Some ''Film'') []]"
    using categories_emitted[OF run]
    unfolding v[THEN conjunct2, THEN conjunct1] v[THEN conjunct2, THEN conjunct2] v[THEN conjunct1]
    by simp
  with run show "\<exists>p err. program_xml example_lib ?d = Inr (p, err)
      \<and> filter (\<lambda>e. tag e = ''category'') (children p)
        = [Element ''category'' [] (Some ''Movie / Drama'') [],
           Element ''category'' [(''lang'', ''fr'')] (Some ''Film'') []]"
    by (intro exI conjI)
qed

end
